theory Spec2Isabelle
  imports Main "HOL-Library.Word" "HOL-Library.Product_Lexorder"
begin

section \<open>JavaScript strings\<close>

text \<open>
  A JavaScript string is a sequence of UTF-16 code units: \<open>length\<close>, \<open>substring\<close>,
  \<open>split\<close> and a regular expression without the \<open>u\<close> flag all count and compare code
  units. The string literals of \<open>src/index.ts\<close> that contain Chinese text are written
  here as their code units.
\<close>

type_synonym jchar = "16 word"
type_synonym jstring = "jchar list"

definition ascii :: "string \<Rightarrow> jstring" where
  "ascii s = map of_char s"

text \<open>\<open>Array.prototype.join\<close>.\<close>

fun join :: "jstring \<Rightarrow> jstring list \<Rightarrow> jstring" where
  "join sep [] = []"
| "join sep [x] = x"
| "join sep (x # y # ys) = x @ sep @ join sep (y # ys)"

text \<open>
  A \<open>Set\<close> keeps its elements in insertion order; adding an element that is already
  there changes nothing. \<open>new Set(array)\<close> adds the elements of the array in order, and
  spreading the set (\<open>[...s]\<close>) lists them in that order.
\<close>

definition Set_add :: "'a list \<Rightarrow> 'a \<Rightarrow> 'a list" where
  "Set_add s x = (if x \<in> set s then s else s @ [x])"

definition new_Set :: "'a list \<Rightarrow> 'a list" where
  "new_Set xs = foldl Set_add [] xs"

text \<open>
  \<open>Record<string, string>\<close>: an object with string keys, as the list of its entries in
  insertion order (the order of \<open>Object.entries\<close> for keys that are not array indices;
  the keys here are script paths, which start with \<open>/\<close>). \<open>obj[k]\<close> is \<open>map_of obj k\<close>,
  with \<open>None\<close> for \<open>undefined\<close>; \<open>obj[k] = v\<close> is \<open>Record_set\<close>: an existing key keeps
  its place and takes the new value, a new key goes to the end.
\<close>

type_synonym files = "(jstring \<times> jstring) list"

fun Record_set :: "files \<Rightarrow> jstring \<Rightarrow> jstring \<Rightarrow> files" where
  "Record_set [] k v = [(k, v)]"
| "Record_set ((k', v') # es) k v =
     (if k' = k then (k, v) # es else (k', v') # Record_set es k v)"

section \<open>Content normalizer: \<open>path.replace(/-[a-f0-9]{16,}\.js$/, '.js')\<close>\<close>

definition dot_js :: jstring where
  "dot_js = [0x2E, 0x6A, 0x73]"

text \<open>The character class \<open>[a-f0-9]\<close>.\<close>

definition is_hex :: "jchar \<Rightarrow> bool" where
  "is_hex c = ((0x61 \<le> c \<and> c \<le> 0x66) \<or> (0x30 \<le> c \<and> c \<le> 0x39))"

text \<open>
  Whether \<open>-[a-f0-9]{16,}\.js$\<close> matches with the match starting at the first code unit
  of \<open>s\<close>: a hyphen, then the greedy run of hex digits, at least 16 of them, then \<open>.js\<close>
  and the end of the string. Giving back hex digits cannot help the match, since the
  code unit after a shorter run would be a hex digit and not the dot.
\<close>

definition hash_suffix_here :: "jstring \<Rightarrow> bool" where
  "hash_suffix_here s =
     (case s of
        [] \<Rightarrow> False
      | c # r \<Rightarrow> c = 0x2D \<and> 16 \<le> length (takeWhile is_hex r) \<and> dropWhile is_hex r = dot_js)"

text \<open>
  \<open>replace\<close> with a regular expression that has no \<open>g\<close> flag rewrites the leftmost
  match only: the start positions are tried from left to right. The match, when there
  is one, runs to the end of the string, so the result is what precedes it and \<open>.js\<close>.
\<close>

fun baseName :: "jstring \<Rightarrow> jstring" where
  "baseName [] = []"
| "baseName (c # cs) = (if hash_suffix_here (c # cs) then dot_js else c # baseName cs)"

section \<open>Differ: \<open>generateDiff\<close>\<close>

text \<open>
  The regular expression of \<open>tokenize\<close> is one or more code units outside the
  class of letters, digits, underscore, the two quote characters and the code units
  from U+4E00 to U+9FA5. \<open>is_token_char\<close> is that class, \<open>is_separator\<close> its
  complement.
\<close>

definition is_token_char :: "jchar \<Rightarrow> bool" where
  "is_token_char c =
     ((0x61 \<le> c \<and> c \<le> 0x7A) \<or> (0x41 \<le> c \<and> c \<le> 0x5A) \<or> (0x30 \<le> c \<and> c \<le> 0x39)
      \<or> c = 0x5F \<or> c = 0x27 \<or> c = 0x22 \<or> (0x4E00 \<le> c \<and> c \<le> 0x9FA5))"

definition is_separator :: "jchar \<Rightarrow> bool" where
  "is_separator c = (\<not> is_token_char c)"

text \<open>
  \<open>str.split(/[^...]+/)\<close>: the pieces between the maximal runs of separators. A string
  that starts or ends with a separator yields an empty first or last piece, and the
  empty string yields one empty piece.
\<close>

function split_sep :: "jstring \<Rightarrow> jstring list" where
  "split_sep str =
     (if dropWhile is_token_char str = [] then [takeWhile is_token_char str]
      else takeWhile is_token_char str
             # split_sep (dropWhile is_separator (dropWhile is_token_char str)))"
  by pat_completeness auto
termination
proof (relation "measure length")
  show "wf (measure length)" by simp
next
  fix str :: jstring
  assume ne: "dropWhile is_token_char str \<noteq> []"
  then obtain c r where r: "dropWhile is_token_char str = c # r"
    by (cases "dropWhile is_token_char str") auto
  then have "\<not> is_token_char c"
    using hd_dropWhile [OF ne] by simp
  then have "dropWhile is_separator (c # r) = dropWhile is_separator r"
    by (simp add: is_separator_def)
  then have "length (dropWhile is_separator (c # r)) \<le> length r"
    by (simp add: length_dropWhile_le)
  also have "length r < length (dropWhile is_token_char str)"
    using r by simp
  also have "\<dots> \<le> length str"
    by (rule length_dropWhile_le)
  finally show "(dropWhile is_separator (dropWhile is_token_char str), str) \<in> measure length"
    using r by simp
qed

declare split_sep.simps [simp del]

definition tokenize :: "jstring \<Rightarrow> jstring list" where
  "tokenize str = new_Set (split_sep str)"

text \<open>
  \<open>added\<close> and \<open>removed\<close> of a changed module: the tokens of one content that the other
  content's set does not have and that are longer than 3 code units.
\<close>

definition added :: "jstring \<Rightarrow> jstring \<Rightarrow> jstring list" where
  "added oldContent newContent =
     filter (\<lambda>x. x \<notin> set (tokenize oldContent) \<and> 3 < length x) (tokenize newContent)"

definition removed :: "jstring \<Rightarrow> jstring \<Rightarrow> jstring list" where
  "removed oldContent newContent =
     filter (\<lambda>x. x \<notin> set (tokenize newContent) \<and> 3 < length x) (tokenize oldContent)"

text \<open>The fixed pieces of the template literals.\<close>

definition new_module_label :: jstring where
  "new_module_label = [0x0A, 0x5B, 0x65B0, 0x589E, 0x6A21, 0x7D44, 0x5D, 0x20]"

definition changed_open :: jstring where
  "changed_open = [0x0A, 0x2D, 0x2D, 0x2D, 0x20, 0x6A21, 0x7D44, 0x8B8A, 0x66F4, 0x3A, 0x20]"

definition changed_close :: jstring where
  "changed_close = [0x20, 0x2D, 0x2D, 0x2D, 0x0A]"

definition added_label :: jstring where
  "added_label = [0x5B, 0x65B0, 0x589E, 0x95DC, 0x9375, 0x5B57, 0x2F, 0x5B57, 0x4E32, 0x5D, 0x3A, 0x20]"

definition removed_label :: jstring where
  "removed_label = [0x5B, 0x79FB, 0x9664, 0x95DC, 0x9375, 0x5B57, 0x2F, 0x5B57, 0x4E32, 0x5D, 0x3A, 0x20]"

definition comma_space :: jstring where
  "comma_space = [0x2C, 0x20]"

text \<open>
  What one iteration of the loop over \<open>Object.entries(newFiles)\<close> appends to
  \<open>diffSummary\<close>. \<open>!oldContent\<close> holds for \<open>undefined\<close> and for the empty string.
\<close>

definition diff_entry :: "files \<Rightarrow> jstring \<Rightarrow> jstring \<Rightarrow> jstring" where
  "diff_entry oldFiles path newContent =
     (case map_of oldFiles path of
        None \<Rightarrow> new_module_label @ path @ [0x0A]
      | Some oldContent \<Rightarrow>
          if oldContent = [] then new_module_label @ path @ [0x0A]
          else if oldContent \<noteq> newContent then
            (let a = added oldContent newContent;
                 r = removed oldContent newContent
             in if a \<noteq> [] \<or> r \<noteq> [] then
                  changed_open @ path @ changed_close
                  @ (if a \<noteq> [] then added_label @ join comma_space (take 40 a) @ [0x0A] else [])
                  @ (if r \<noteq> [] then removed_label @ join comma_space (take 40 r) @ [0x0A] else [])
                else [])
          else [])"

definition generateDiff :: "files \<Rightarrow> files \<Rightarrow> jstring" where
  "generateDiff oldFiles newFiles =
     take 3000
       (foldl (\<lambda>diffSummary (path, newContent). diffSummary @ diff_entry oldFiles path newContent)
          [] newFiles)"

section \<open>The world outside the worker\<close>

text \<open>
  One run of the worker talks to four collaborators: the target site, the key-value
  store, the text-generation endpoint and the Discord webhook. What they answer during
  the run is the \<open>world\<close>; what the run does to them is the \<open>trace\<close> of its events
  and the final contents of the store.

  A \<open>fetch\<close> either rejects or resolves with a response, which has a status and a
  body; reading the body with \<open>res.text()\<close> can reject too (\<open>None\<close>). \<open>res.ok\<close> holds
  for the statuses 200 to 299.
\<close>

datatype fetch_result = Fetch_rejects | Response nat "jstring option"

definition ok :: "nat \<Rightarrow> bool" where
  "ok status = (200 \<le> status \<and> status \<le> 299)"

text \<open>
  The answer of the text-generation endpoint, as \<open>getAIPatchSummary\<close> sees it:
  \<open>LLM_throws\<close> when anything inside its \<open>try\<close> block throws (the \<open>fetch\<close> rejects,
  \<open>res.json()\<close> rejects, or reading \<open>data.choices?.[0]?.message?.content?.trim()\<close>
  raises a TypeError); otherwise the \<open>content\<close> string of the first choice, \<open>None\<close>
  when the optional chain ends in \<open>undefined\<close> or \<open>null\<close>.
\<close>

datatype llm_result = LLM_throws | LLM_content "jstring option"

text \<open>
  The script requests are started together and settle in any order. The world answers
  the request with index \<open>i\<close> (its place in \<open>scriptPaths\<close>) for URL \<open>u\<close> with
  \<open>script_response w i u\<close>, at the time \<open>script_settles w i\<close>.
\<close>

record world =
  page_response :: fetch_result
  script_response :: "nat \<Rightarrow> jstring \<Rightarrow> fetch_result"
  script_settles :: "nat \<Rightarrow> nat"
  llm_reply :: llm_result
  discord_resolves :: bool

text \<open>
  Built-ins of the platform that the worker calls and that are not part of its source.
  \<open>JSON_parse\<close> is \<open>JSON.parse\<close> read at the declared type
  \<open>Record<string, string>\<close>, \<open>None\<close> when it throws a SyntaxError; \<open>JSON_stringify\<close> is
  \<open>JSON.stringify\<close> on such a record; \<open>url_origin u\<close> is \<open>new URL(u).origin\<close>, which is
  evaluated only after \<open>fetch(u)\<close> has resolved for the same \<open>u\<close>.
\<close>

record platform =
  JSON_parse :: "jstring \<Rightarrow> files option"
  JSON_stringify :: "files \<Rightarrow> jstring"
  url_origin :: "jstring \<Rightarrow> jstring"

text \<open>The bindings of \<open>Env\<close>; \<open>MONITOR_KV\<close> is the \<open>store\<close> of the run state.\<close>

record env =
  TARGET_URL :: jstring
  DISCORD_WEBHOOK_URL :: jstring
  LLM_API_KEY :: jstring
  LLM_API_URL :: jstring

text \<open>The console messages, by the statement that prints them, with their arguments.\<close>

datatype message =
    First_write jstring
  | Update_found jstring jstring
  | Diff_fragment jstring
  | Calling_AI
  | No_update jstring
  | Check_failed
  | Script_failed jstring
  | AI_failed

text \<open>
  \<open>LLM_post url key diffText\<close> is the POST of the prompt that embeds \<open>diffText\<close>;
  \<open>Discord_post url oldId newId summary\<close> is the POST of the payload built from the
  three strings (its timestamp is left out).
\<close>

datatype event =
    Fetch jstring
  | KV_get jstring
  | KV_put jstring jstring
  | LLM_post jstring jstring jstring
  | Discord_post jstring jstring jstring jstring
  | Console message

record run_state =
  store :: "jstring \<Rightarrow> jstring option"
  trace :: "event list"

definition emit :: "event \<Rightarrow> run_state \<Rightarrow> run_state" where
  "emit e s = s\<lparr>trace := trace s @ [e]\<rparr>"

definition LAST_BUILD_ID :: jstring where
  "LAST_BUILD_ID = ascii ''LAST_BUILD_ID''"

definition LAST_JS_FILES :: jstring where
  "LAST_JS_FILES = ascii ''LAST_JS_FILES''"

text \<open>
  \<open>MONITOR_KV.get\<close> and \<open>MONITOR_KV.put\<close>. The store answers every call: a store that
  rejects a call is not part of this model.
\<close>

definition kv_get :: "jstring \<Rightarrow> run_state \<Rightarrow> jstring option \<times> run_state" where
  "kv_get k s = (store s k, emit (KV_get k) s)"

definition kv_put :: "jstring \<Rightarrow> jstring \<Rightarrow> run_state \<Rightarrow> run_state" where
  "kv_put k v s = emit (KV_put k v) (s\<lparr>store := (store s)(k \<mapsto> v)\<rparr>)"

text \<open>A string or \<open>null\<close> in a condition: \<open>null\<close> and the empty string are falsy.\<close>

definition truthy :: "jstring option \<Rightarrow> bool" where
  "truthy v = (case v of None \<Rightarrow> False | Some str \<Rightarrow> str \<noteq> [])"

section \<open>Build identifier extractor: \<open>fetchPageData\<close>\<close>

definition quote :: jchar where
  "quote = 0x22"

definition buildId_marker :: jstring where
  "buildId_marker = [0x22, 0x62, 0x75, 0x69, 0x6C, 0x64, 0x49, 0x64, 0x22, 0x3A, 0x22]"

definition starts_with :: "jstring \<Rightarrow> jstring \<Rightarrow> bool" where
  "starts_with p str = (take (length p) str = p)"

text \<open>
  The pattern is the marker \<open>"buildId":"\<close>, a group of one or more code units other than
  the double quote, and a double quote. Matched at the first code unit of \<open>str\<close>: after
  the marker the greedy group takes every code unit up to the next double quote or the
  end, it must not be empty, and a double quote must follow it.
\<close>

definition buildId_here :: "jstring \<Rightarrow> jstring option" where
  "buildId_here str =
     (if starts_with buildId_marker str then
        (let r = drop (length buildId_marker) str;
             token = takeWhile (\<lambda>c. c \<noteq> quote) r
         in if token \<noteq> [] \<and> dropWhile (\<lambda>c. c \<noteq> quote) r \<noteq> [] then Some token else None)
      else None)"

text \<open>\<open>html.match\<close> returns the leftmost match; \<open>buildIdMatch[1]\<close> is its group.\<close>

fun find_buildId :: "jstring \<Rightarrow> jstring option" where
  "find_buildId [] = None"
| "find_buildId (c # cs) =
     (case buildId_here (c # cs) of
        Some token \<Rightarrow> Some token
      | None \<Rightarrow> find_buildId cs)"

definition src_open :: jstring where
  "src_open = ascii ''src='' @ [quote]"

definition chunks_dir :: jstring where
  "chunks_dir = ascii ''/_next/static/chunks/''"

definition ends_with :: "jstring \<Rightarrow> jstring \<Rightarrow> bool" where
  "ends_with p str = (length p \<le> length str \<and> drop (length str - length p) str = p)"

text \<open>
  The script pattern is \<open>src="\<close>, then a group made of the chunks directory, one or more
  code units other than the double quote and \<open>.js\<close>, then a double quote. Matched at
  the first code unit of \<open>str\<close>: the closing quote can only be the first double quote after
  the directory, so the code units up to it must end with \<open>.js\<close> and have at least one
  code unit before that. The result is the group and what follows the match.
\<close>

definition script_here :: "jstring \<Rightarrow> (jstring \<times> jstring) option" where
  "script_here str =
     (if starts_with (src_open @ chunks_dir) str then
        (let r = drop (length (src_open @ chunks_dir)) str;
             name = takeWhile (\<lambda>c. c \<noteq> quote) r;
             rest = dropWhile (\<lambda>c. c \<noteq> quote) r
         in if rest \<noteq> [] \<and> 4 \<le> length name \<and> ends_with dot_js name
            then Some (chunks_dir @ name, tl rest) else None)
      else None)"

text \<open>
  \<open>html.matchAll\<close> with the \<open>g\<close> flag: the matches from left to right, each search
  starting where the previous match ended.
\<close>

function find_scripts :: "jstring \<Rightarrow> jstring list" where
  "find_scripts [] = []"
| "find_scripts (c # cs) =
     (case script_here (c # cs) of
        Some (path, rest) \<Rightarrow> path # find_scripts rest
      | None \<Rightarrow> find_scripts cs)"
  by pat_completeness auto
termination
proof (relation "measure length")
  show "wf (measure length)" by simp
next
  fix c :: jchar and cs x2 path rest
  assume "script_here (c # cs) = Some x2" and "(path, rest) = x2"
  then have "rest = tl (dropWhile (\<lambda>c. c \<noteq> quote) (drop (length (src_open @ chunks_dir)) (c # cs)))"
    by (auto simp: script_here_def Let_def split: if_splits)
  moreover have "length (dropWhile (\<lambda>c. c \<noteq> quote) (drop (length (src_open @ chunks_dir)) (c # cs)))
      \<le> length (c # cs)"
    by (rule order_trans [OF length_dropWhile_le]) simp
  ultimately have "length rest < length (c # cs)"
    by (simp add: src_open_def)
  then show "(rest, c # cs) \<in> measure length" by simp
next
  fix c :: jchar and cs
  show "(cs, c # cs) \<in> measure length" by simp
qed

declare find_scripts.simps [simp del]

text \<open>
  \<open>fetchPageData\<close> returns \<open>None\<close> when it throws: the \<open>fetch\<close> rejects, the status is
  not a success, or reading the body rejects.
\<close>

definition fetchPageData ::
  "world \<Rightarrow> jstring \<Rightarrow> run_state \<Rightarrow> (jstring option \<times> jstring list) option \<times> run_state" where
  "fetchPageData w targetUrl s =
     (let s1 = emit (Fetch targetUrl) s
      in case page_response w of
           Fetch_rejects \<Rightarrow> (None, s1)
         | Response status body \<Rightarrow>
             if \<not> ok status then (None, s1)
             else (case body of
                     None \<Rightarrow> (None, s1)
                   | Some html \<Rightarrow> (Some (find_buildId html, find_scripts html), s1)))"

section \<open>Fetcher: \<open>fetchJsContents\<close>\<close>

text \<open>
  The requests with their answers, in the order in which they settle: by the time at
  which they settle and, for requests that settle at the same time, by their place in
  \<open>scriptPaths\<close> (the pairs of time and index are compared lexicographically).
\<close>

definition settled :: "world \<Rightarrow> jstring \<Rightarrow> jstring list \<Rightarrow> (jstring \<times> fetch_result) list" where
  "settled w origin scriptPaths =
     map (\<lambda>(i, path). (path, script_response w i (origin @ path)))
       (sort_key (\<lambda>(i, path). (script_settles w i, i)) (enumerate 0 scriptPaths))"

text \<open>
  The body of one callback after its awaits: a request that resolved and whose body was
  read stores the body under the base name, whatever the status; the \<open>catch\<close> block logs
  any other request and stores nothing.
\<close>

fun settle :: "files \<times> run_state \<Rightarrow> jstring \<times> fetch_result \<Rightarrow> files \<times> run_state" where
  "settle (files, s) (path, Response status (Some content)) =
     (Record_set files (baseName path) content, s)"
| "settle (files, s) (path, Response status None) =
     (files, emit (Console (Script_failed path)) s)"
| "settle (files, s) (path, Fetch_rejects) =
     (files, emit (Console (Script_failed path)) s)"

definition fetchJsContents ::
  "platform \<Rightarrow> world \<Rightarrow> jstring \<Rightarrow> jstring list \<Rightarrow> run_state \<Rightarrow> files \<times> run_state" where
  "fetchJsContents P w targetUrl scriptPaths s =
     (let origin = url_origin P targetUrl;
          s1 = foldl (\<lambda>s path. emit (Fetch (origin @ path)) s) s scriptPaths
      in foldl settle ([], s1) (settled w origin scriptPaths))"

section \<open>Summarizer client: \<open>getAIPatchSummary\<close>\<close>

text \<open>
  \<open>trim\<close> removes white space and line terminators from both ends: TAB, LF, VT, FF, CR,
  the byte order mark and the space separators of Unicode.
\<close>

definition is_white_space :: "jchar \<Rightarrow> bool" where
  "is_white_space c =
     ((0x09 \<le> c \<and> c \<le> 0x0D) \<or> c = 0x20 \<or> c = 0xA0 \<or> c = 0x1680
      \<or> (0x2000 \<le> c \<and> c \<le> 0x200A) \<or> c = 0x2028 \<or> c = 0x2029 \<or> c = 0x202F
      \<or> c = 0x205F \<or> c = 0x3000 \<or> c = 0xFEFF)"

definition trim :: "jstring \<Rightarrow> jstring" where
  "trim str = rev (dropWhile is_white_space (rev (dropWhile is_white_space str)))"

definition trivial_change :: jstring where
  "trivial_change =
     [0x50C5, 0x6709, 0x5FAE, 0x5C0F, 0x8B8A, 0x66F4, 0x6216, 0x8CC7, 0x6E90, 0x6A94, 0x66F4,
      0x65B0, 0xFF0C, 0x7121, 0x660E, 0x986F, 0x696D, 0x52D9, 0x908F, 0x8F2F, 0x8B8A, 0x5316,
      0x3002]"

definition not_parsed :: jstring where
  "not_parsed = [0x7121, 0x6CD5, 0x89E3, 0x6790, 0x66F4, 0x65B0, 0x5167, 0x5BB9, 0x3002]"

definition summary_failed :: jstring where
  "summary_failed =
     [0x41, 0x49, 0x20, 0x7C21, 0x5831, 0x751F, 0x6210, 0x5931, 0x6557, 0xFF0C, 0x8ACB, 0x624B,
      0x52D5, 0x67E5, 0x770B, 0x8B8A, 0x66F4, 0x3002]"

definition getAIPatchSummary ::
  "world \<Rightarrow> env \<Rightarrow> jstring \<Rightarrow> run_state \<Rightarrow> jstring \<times> run_state" where
  "getAIPatchSummary w e diffText s =
     (if trim diffText = [] then (trivial_change, s)
      else
        (let s1 = emit (LLM_post (LLM_API_URL e) (LLM_API_KEY e) diffText) s
         in case llm_reply w of
              LLM_throws \<Rightarrow> (summary_failed, emit (Console AI_failed) s1)
            | LLM_content None \<Rightarrow> (not_parsed, s1)
            | LLM_content (Some content) \<Rightarrow>
                (if trim content = [] then not_parsed else trim content, s1)))"

section \<open>Notifier: \<open>sendDiscordNotification\<close>\<close>

text \<open>
  The function awaits one \<open>fetch\<close> and has no \<open>try\<close> block: it throws exactly when the
  \<open>fetch\<close> rejects (\<open>False\<close>). The status of a response is not looked at.
\<close>

definition sendDiscordNotification ::
  "world \<Rightarrow> env \<Rightarrow> jstring \<Rightarrow> jstring \<Rightarrow> jstring \<Rightarrow> run_state \<Rightarrow> bool \<times> run_state" where
  "sendDiscordNotification w e oldId newId summary s =
     (discord_resolves w, emit (Discord_post (DISCORD_WEBHOOK_URL e) oldId newId summary) s)"

section \<open>Pipeline orchestrator: \<open>checkTask\<close>\<close>

text \<open>
  The place where a run of \<open>checkTask\<close> ends: the early \<open>return\<close> for a missing build
  identifier, the \<open>return\<close> of the first run, the end of the update branch, its \<open>else\<close>
  branch, or the \<open>catch\<close> block.
\<close>

datatype outcome = ABORTED | BOOTSTRAP | CHANGED | NO_CHANGE | FAILED

definition persist :: "platform \<Rightarrow> jstring \<Rightarrow> files \<Rightarrow> run_state \<Rightarrow> run_state" where
  "persist P buildId currentJsFiles s =
     kv_put LAST_JS_FILES (JSON_stringify P currentJsFiles) (kv_put LAST_BUILD_ID buildId s)"

definition caught :: "run_state \<Rightarrow> outcome \<times> run_state" where
  "caught s = (FAILED, emit (Console Check_failed) s)"

definition checkTask :: "platform \<Rightarrow> world \<Rightarrow> env \<Rightarrow> run_state \<Rightarrow> outcome \<times> run_state" where
  "checkTask P w e s =
     (case fetchPageData w (TARGET_URL e) s of
        (None, s1) \<Rightarrow> caught s1
      | (Some (found, scriptPaths), s1) \<Rightarrow>
          if \<not> truthy found then (ABORTED, s1)
          else
            (let buildId = the found;
                 (currentJsFiles, s2) = fetchJsContents P w (TARGET_URL e) scriptPaths s1;
                 (lastBuildId, s3) = kv_get LAST_BUILD_ID s2;
                 (lastJsFilesStr, s4) = kv_get LAST_JS_FILES s3
             in case (if truthy lastJsFilesStr then JSON_parse P (the lastJsFilesStr) else Some []) of
                  None \<Rightarrow> caught s4
                | Some lastJsFiles \<Rightarrow>
                    if \<not> truthy lastBuildId then
                      (BOOTSTRAP, persist P buildId currentJsFiles (emit (Console (First_write buildId)) s4))
                    else if buildId \<noteq> the lastBuildId then
                      (let s5 = emit (Console (Update_found (the lastBuildId) buildId)) s4;
                           diffText = generateDiff lastJsFiles currentJsFiles;
                           s6 = emit (Console Calling_AI) (emit (Console (Diff_fragment diffText)) s5);
                           (summary, s7) = getAIPatchSummary w e diffText s6
                       in case sendDiscordNotification w e (the lastBuildId) buildId summary s7 of
                            (False, s8) \<Rightarrow> caught s8
                          | (True, s8) \<Rightarrow> (CHANGED, persist P buildId currentJsFiles s8))
                    else (NO_CHANGE, emit (Console (No_update buildId)) s4)))"

section \<open>Vocabulary of the properties\<close>

text \<open>The body that a settled request delivers, if it delivers one.\<close>

fun body_of :: "fetch_result \<Rightarrow> jstring option" where
  "body_of (Response status (Some content)) = Some content"
| "body_of (Response status None) = None"
| "body_of Fetch_rejects = None"

text \<open>
  The events that the properties of the orchestrator speak about: a write to the store,
  a call of the text-generation endpoint, a call of the webhook, and the log line that
  prints a computed diff.
\<close>

fun is_store_write :: "event \<Rightarrow> bool" where
  "is_store_write (KV_put k v) = True"
| "is_store_write ev = False"

fun is_summarizer_call :: "event \<Rightarrow> bool" where
  "is_summarizer_call (LLM_post url key diffText) = True"
| "is_summarizer_call ev = False"

fun is_notification :: "event \<Rightarrow> bool" where
  "is_notification (Discord_post url oldId newId summary) = True"
| "is_notification ev = False"

fun is_diff_log :: "event \<Rightarrow> bool" where
  "is_diff_log (Console (Diff_fragment diffText)) = True"
| "is_diff_log ev = False"

text \<open>
  A token as the lines of the diff may list it: longer than 3 code units and made of
  token characters only, so that it holds neither the comma nor the space of the
  separator nor a line feed. \<open>token_line\<close> is the line that lists the tokens \<open>ts\<close>
  after a label, and nothing when there is no token to list.
\<close>

definition long_token :: "jstring \<Rightarrow> bool" where
  "long_token t = (3 < length t \<and> list_all is_token_char t)"

definition token_line :: "jstring \<Rightarrow> jstring list \<Rightarrow> jstring" where
  "token_line label ts = (if ts \<noteq> [] then label @ join comma_space ts @ [0x0A] else [])"

text \<open>An event that is none of these four.\<close>

definition silent :: "event \<Rightarrow> bool" where
  "silent ev =
     (\<not> is_store_write ev \<and> \<not> is_summarizer_call ev \<and> \<not> is_notification ev \<and> \<not> is_diff_log ev)"

text \<open>The events that a run adds to the trace it started with.\<close>

definition events_of_run :: "run_state \<Rightarrow> run_state \<Rightarrow> event list" where
  "events_of_run s s' = drop (length (trace s)) (trace s')"

text \<open>
  The stored scripts blob is readable when \<open>checkTask\<close> gets past its \<open>JSON.parse\<close>:
  the key is absent or empty, or the platform parses the blob. Every blob that
  \<open>checkTask\<close> itself wrote is the output of \<open>JSON.stringify\<close>.
\<close>

definition scripts_blob_readable :: "platform \<Rightarrow> run_state \<Rightarrow> bool" where
  "scripts_blob_readable P s =
     (if truthy (store s LAST_JS_FILES) then JSON_parse P (the (store s LAST_JS_FILES)) \<noteq> None
      else True)"

definition stored_scripts :: "platform \<Rightarrow> run_state \<Rightarrow> files" where
  "stored_scripts P s =
     (if truthy (store s LAST_JS_FILES)
      then (case JSON_parse P (the (store s LAST_JS_FILES)) of Some fs \<Rightarrow> fs | None \<Rightarrow> [])
      else [])"

section \<open>Concrete runs\<close>

text \<open>
  A page of the target site with build identifier \<open>B2\<close> and one script, an earlier state
  of the store with build identifier \<open>B1\<close>, and a platform for them. The serializer
  writes a record as a JSON object and escapes the double quote and the backslash,
  which is all the strings below need; the parser reads back the one blob of the
  earlier state and rejects any other string.
\<close>

definition example_page :: jstring where
  "example_page =
     ascii ''<script src='' @ [quote] @ ascii ''/_next/static/chunks/page-f771e2c1298902e1.js''
     @ [quote] @ ascii ''></script><script>{'' @ buildId_marker @ ascii ''B2'' @ [quote] @ ascii ''}</script>''"

definition example_quote :: "jstring \<Rightarrow> jstring" where
  "example_quote str =
     [quote] @ concat (map (\<lambda>c. if c = quote \<or> c = 0x5C then [0x5C, c] else [c]) str) @ [quote]"

definition example_stringify :: "files \<Rightarrow> jstring" where
  "example_stringify fs =
     [0x7B] @ join [0x2C] (map (\<lambda>(k, v). example_quote k @ [0x3A] @ example_quote v) fs) @ [0x7D]"

definition example_old_files :: files where
  "example_old_files =
     [(ascii ''/_next/static/chunks/page.js'', ascii ''function render(){return oldBanner}''),
      (ascii ''/_next/static/chunks/gone.js'', ascii ''legacyWidget()'')]"

definition example_platform :: platform where
  "example_platform =
     \<lparr>JSON_parse = (\<lambda>str. if str = example_stringify example_old_files
                              then Some example_old_files else None),
      JSON_stringify = example_stringify,
      url_origin = take 19\<rparr>"

definition example_env :: env where
  "example_env =
     \<lparr>TARGET_URL = ascii ''https://example.org/app'',
      DISCORD_WEBHOOK_URL = ascii ''https://discord.example/hook'',
      LLM_API_KEY = ascii ''key'',
      LLM_API_URL = ascii ''https://llm.example/v1''\<rparr>"

text \<open>
  In \<open>example_world\<close> the script answers with status 404 and a body, the text
  generation fails and the webhook request rejects; \<open>example_world_delivered\<close> differs
  in the webhook request, which resolves.
\<close>

definition example_world :: world where
  "example_world =
     \<lparr>page_response = Response 200 (Some example_page),
      script_response = (\<lambda>i url. Response 404 (Some (ascii ''function render(){return newBanner}''))),
      script_settles = (\<lambda>i. 0),
      llm_reply = LLM_throws,
      discord_resolves = False\<rparr>"

definition example_world_delivered :: world where
  "example_world_delivered = example_world\<lparr>discord_resolves := True\<rparr>"

definition example_world_no_buildId :: world where
  "example_world_no_buildId =
     example_world\<lparr>page_response := Response 200 (Some (ascii ''<html>maintenance</html>''))\<rparr>"

definition example_state :: run_state where
  "example_state =
     \<lparr>store = [LAST_BUILD_ID \<mapsto> ascii ''B1'',
               LAST_JS_FILES \<mapsto> example_stringify example_old_files],
      trace = []\<rparr>"

definition example_state_same_build :: run_state where
  "example_state_same_build =
     \<lparr>store = [LAST_BUILD_ID \<mapsto> ascii ''B2'',
               LAST_JS_FILES \<mapsto> example_stringify example_old_files],
      trace = []\<rparr>"

definition example_state_empty :: run_state where
  "example_state_empty = \<lparr>store = Map.empty, trace = []\<rparr>"

text \<open>
  Two script paths with one base name. The first request gets status 200 and settles
  first, the second gets status 404 and settles after it.
\<close>

definition example_twins :: "jstring list" where
  "example_twins =
     [ascii ''/_next/static/chunks/page-0123456789abcdef.js'',
      ascii ''/_next/static/chunks/page-fedcba9876543210.js'']"

definition example_world_twins :: world where
  "example_world_twins =
     example_world
       \<lparr>script_response := (\<lambda>i url. if i = 0 then Response 200 (Some (ascii ''first body''))
                                      else Response 404 (Some (ascii ''second body''))),
        script_settles := (\<lambda>i. i)\<rparr>"

text \<open>A script path of 2964 code units.\<close>

definition example_long_name :: jstring where
  "example_long_name = chunks_dir @ replicate 2940 0x61 @ dot_js"

section \<open>Properties of the content normalizer\<close>

lemma not_hex_dot [simp]: "\<not> is_hex 0x2E" by (simp add: is_hex_def)
lemma not_hex_hyphen [simp]: "\<not> is_hex 0x2D" by (simp add: is_hex_def)

lemma takeWhile_hex_run:
  "list_all is_hex h \<Longrightarrow> takeWhile is_hex (h @ dot_js) = h"
  by (induction h) (simp_all add: dot_js_def)

lemma dropWhile_hex_run:
  "list_all is_hex h \<Longrightarrow> dropWhile is_hex (h @ dot_js) = dot_js"
  by (induction h) (simp_all add: dot_js_def)

lemma hash_suffix_here_iff:
  "hash_suffix_here s \<longleftrightarrow> (\<exists>h. 16 \<le> length h \<and> list_all is_hex h \<and> s = 0x2D # h @ dot_js)"
proof
  assume "hash_suffix_here s"
  then obtain r where s: "s = 0x2D # r" and len: "16 \<le> length (takeWhile is_hex r)"
    and rest: "dropWhile is_hex r = dot_js"
    by (auto simp: hash_suffix_here_def split: list.splits)
  have "r = takeWhile is_hex r @ dot_js"
    using takeWhile_dropWhile_id [of is_hex r] rest by simp
  moreover have "list_all is_hex (takeWhile is_hex r)"
    by (simp add: list_all_iff) (meson set_takeWhileD)
  ultimately show "\<exists>h. 16 \<le> length h \<and> list_all is_hex h \<and> s = 0x2D # h @ dot_js"
    using s len by blast
next
  assume "\<exists>h. 16 \<le> length h \<and> list_all is_hex h \<and> s = 0x2D # h @ dot_js"
  then show "hash_suffix_here s"
    by (auto simp: hash_suffix_here_def takeWhile_hex_run dropWhile_hex_run)
qed

lemma no_match_before_hyphen:
  assumes "list_all is_hex h"
  shows "\<not> hash_suffix_here (c # name @ 0x2D # h @ dot_js)"
proof
  assume "hash_suffix_here (c # name @ 0x2D # h @ dot_js)"
  then obtain h' where h': "list_all is_hex h'" and eq: "name @ 0x2D # h @ dot_js = h' @ dot_js"
    by (auto simp: hash_suffix_here_iff)
  from eq have "(name @ 0x2D # h) @ dot_js = h' @ dot_js" by simp
  then have "h' = name @ 0x2D # h" by (simp only: append_same_eq)
  then show False using h' by simp
qed

lemma baseName_strip:
  "16 \<le> length h \<Longrightarrow> list_all is_hex h \<Longrightarrow> baseName (name @ 0x2D # h @ dot_js) = name @ dot_js"
proof (induction name)
  case Nil
  then show ?case by (auto simp: hash_suffix_here_iff)
next
  case (Cons c name)
  then show ?case using no_match_before_hyphen [of h c name] by simp
qed

lemma baseName_changes:
  "baseName path \<noteq> path \<Longrightarrow> \<exists>name h. 16 \<le> length h \<and> list_all is_hex h \<and> path = name @ 0x2D # h @ dot_js"
proof (induction path)
  case Nil
  then show ?case by simp
next
  case (Cons c cs)
  show ?case
  proof (cases "hash_suffix_here (c # cs)")
    case True
    then obtain h where "16 \<le> length h" "list_all is_hex h" "c # cs = [] @ 0x2D # h @ dot_js"
      by (auto simp: hash_suffix_here_iff)
    then show ?thesis by blast
  next
    case False
    with Cons.prems have "baseName cs \<noteq> cs" by simp
    then obtain name h where "16 \<le> length h" "list_all is_hex h" "cs = name @ 0x2D # h @ dot_js"
      using Cons.IH by blast
    then have "16 \<le> length h \<and> list_all is_hex h \<and> c # cs = (c # name) @ 0x2D # h @ dot_js" by simp
    then show ?thesis by blast
  qed
qed

text \<open>
  C2. Normalization is exactly the stripping of a hash suffix: a path made of a name, a
  hyphen, 16 or more hex digits (the digits of the pattern, \<open>0-9\<close> and \<open>a-f\<close>) and
  \<open>.js\<close> is mapped to the name followed by \<open>.js\<close>, and a path that does not have this
  form is returned unchanged.
\<close>

theorem baseName_hash_suffix:
  "(16 \<le> length h \<and> list_all is_hex h \<longrightarrow> baseName (name @ 0x2D # h @ dot_js) = name @ dot_js)
   \<and> ((\<nexists>name h. 16 \<le> length h \<and> list_all is_hex h \<and> path = name @ 0x2D # h @ dot_js)
        \<longrightarrow> baseName path = path)"
  using baseName_strip baseName_changes by blast

theorem baseName_hash_suffix_witness:
  "16 \<le> length (ascii ''f771e2c1298902e1'') \<and> list_all is_hex (ascii ''f771e2c1298902e1'')
   \<and> baseName (ascii ''/_next/static/chunks/page'' @ 0x2D # ascii ''f771e2c1298902e1'' @ dot_js)
       = ascii ''/_next/static/chunks/page'' @ dot_js
   \<and> (\<nexists>name h. 16 \<le> length h \<and> list_all is_hex h
         \<and> ascii ''/_next/static/chunks/main.js'' = name @ 0x2D # h @ dot_js)
   \<and> baseName (ascii ''/_next/static/chunks/main.js'') = ascii ''/_next/static/chunks/main.js''"
proof -
  have hex: "16 \<le> length (ascii ''f771e2c1298902e1'') \<and> list_all is_hex (ascii ''f771e2c1298902e1'')"
    by (simp add: ascii_def is_hex_def)
  have plain: "\<nexists>name h. 16 \<le> length h \<and> list_all is_hex h
      \<and> ascii ''/_next/static/chunks/main.js'' = name @ 0x2D # h @ dot_js"
  proof
    assume "\<exists>name h. 16 \<le> length h \<and> list_all is_hex h
      \<and> ascii ''/_next/static/chunks/main.js'' = name @ 0x2D # h @ dot_js"
    then obtain name h where "ascii ''/_next/static/chunks/main.js'' = name @ 0x2D # h @ dot_js"
      by blast
    then have "0x2D \<in> set (ascii ''/_next/static/chunks/main.js'')"
      by simp
    then show False by (simp add: ascii_def)
  qed
  from hex plain
    baseName_hash_suffix [of "ascii ''f771e2c1298902e1''" "ascii ''/_next/static/chunks/page''"
      "ascii ''/_next/static/chunks/main.js''"]
  show ?thesis by blast
qed

section \<open>Properties of the differ\<close>

lemma foldl_append_entries:
  "foldl (\<lambda>d (p, c). d @ f p c) acc xs = acc @ concat (map (\<lambda>(p, c). f p c) xs)"
  by (induction xs arbitrary: acc) (auto)

lemma generateDiff_concat:
  "generateDiff oldFiles newFiles =
     take 3000 (concat (map (\<lambda>(path, newContent). diff_entry oldFiles path newContent) newFiles))"
  by (simp add: generateDiff_def foldl_append_entries)

text \<open>
  C6. Whatever the old and the new script maps are, the text that \<open>generateDiff\<close>
  returns has at most 3000 code units.
\<close>

theorem generateDiff_at_most_3000:
  "length (generateDiff oldFiles newFiles) \<le> 3000"
  by (simp add: generateDiff_def)

theorem generateDiff_at_most_3000_witness:
  "3000 < length (diff_entry [] (replicate 4000 0x61) (ascii ''init()''))
   \<and> length (generateDiff [] [(replicate 4000 0x61, ascii ''init()'')]) \<le> 3000"
proof -
  have long: "3000 < length (diff_entry [] (replicate 4000 0x61) (ascii ''init()''))"
    by (simp add: diff_entry_def new_module_label_def)
  from long generateDiff_at_most_3000 [of "[]" "[(replicate 4000 0x61, ascii ''init()'')]"]
  show ?thesis by blast
qed

lemma split_sep_token_chars: "t \<in> set (split_sep str) \<Longrightarrow> list_all is_token_char t"
proof (induction str rule: split_sep.induct)
  case (1 str)
  have piece: "list_all is_token_char (takeWhile is_token_char str)"
    by (simp add: list_all_iff) (meson set_takeWhileD)
  show ?case
  proof (cases "dropWhile is_token_char str = []")
    case True
    have "split_sep str = [takeWhile is_token_char str]"
      by (subst split_sep.simps) (simp only: True if_True simp_thms)
    with "1.prems" piece show ?thesis by simp
  next
    case False
    have "split_sep str = takeWhile is_token_char str
        # split_sep (dropWhile is_separator (dropWhile is_token_char str))"
      by (subst split_sep.simps) (simp only: False if_False simp_thms)
    with "1.prems" have "t = takeWhile is_token_char str
        \<or> t \<in> set (split_sep (dropWhile is_separator (dropWhile is_token_char str)))"
      by simp
    with piece "1.IH" [OF False] show ?thesis by blast
  qed
qed

lemma set_foldl_Set_add: "set (foldl Set_add acc xs) = set acc \<union> set xs"
  by (induction xs arbitrary: acc) (auto simp: Set_add_def)

lemma set_tokenize: "set (tokenize str) = set (split_sep str)"
  by (simp add: tokenize_def new_Set_def set_foldl_Set_add)

lemma added_long: "list_all long_token (added oldContent newContent)"
  by (auto simp: added_def long_token_def list_all_iff set_tokenize dest: split_sep_token_chars)

lemma removed_long: "list_all long_token (removed oldContent newContent)"
  by (auto simp: removed_def long_token_def list_all_iff set_tokenize dest: split_sep_token_chars)

lemma list_all_take: "list_all P xs \<Longrightarrow> list_all P (take n xs)"
  by (auto simp: list_all_iff dest: in_set_takeD)

lemma diff_entry_forms:
  "\<exists>A R. list_all long_token A \<and> list_all long_token R \<and> length A \<le> 40 \<and> length R \<le> 40
     \<and> (diff_entry oldFiles path newContent = []
        \<or> diff_entry oldFiles path newContent = new_module_label @ path @ [0x0A]
        \<or> diff_entry oldFiles path newContent
            = changed_open @ path @ changed_close @ token_line added_label A @ token_line removed_label R)"
proof (cases "map_of oldFiles path")
  case None
  then have "diff_entry oldFiles path newContent = new_module_label @ path @ [0x0A]"
    by (simp add: diff_entry_def)
  moreover have "list_all long_token []" "length ([] :: jstring list) \<le> 40" by simp_all
  ultimately show ?thesis by blast
next
  case (Some oldContent)
  let ?A = "take 40 (added oldContent newContent)"
  let ?R = "take 40 (removed oldContent newContent)"
  have "list_all long_token ?A" "list_all long_token ?R" "length ?A \<le> 40" "length ?R \<le> 40"
    by (simp_all add: list_all_take added_long removed_long)
  moreover have "diff_entry oldFiles path newContent = []
        \<or> diff_entry oldFiles path newContent = new_module_label @ path @ [0x0A]
        \<or> diff_entry oldFiles path newContent
            = changed_open @ path @ changed_close @ token_line added_label ?A @ token_line removed_label ?R"
    using Some by (auto simp: diff_entry_def token_line_def Let_def)
  ultimately show ?thesis by blast
qed

text \<open>
  C7. What \<open>generateDiff\<close> writes for one module of the new map is nothing, or the line
  of a new module, or the header of a changed module followed by the line of added
  tokens and the line of removed tokens. Each of the two lines lists at most 40 tokens,
  and every token listed is made of token characters and is longer than 3 code units: a
  token of length 3 or less, the empty token included, is not listed. The text returned
  is the first 3000 code units of what is written for all modules.
\<close>

theorem diff_lines_list_long_tokens:
  "generateDiff oldFiles newFiles
     = take 3000 (concat (map (\<lambda>(path, newContent). diff_entry oldFiles path newContent) newFiles))
   \<and> (\<exists>A R. list_all long_token A \<and> list_all long_token R \<and> length A \<le> 40 \<and> length R \<le> 40
        \<and> (diff_entry oldFiles path newContent = []
           \<or> diff_entry oldFiles path newContent = new_module_label @ path @ [0x0A]
           \<or> diff_entry oldFiles path newContent
               = changed_open @ path @ changed_close
                   @ token_line added_label A @ token_line removed_label R))"
  using generateDiff_concat [of oldFiles newFiles] diff_entry_forms [of oldFiles path newContent]
  by blast

theorem diff_lines_list_long_tokens_witness:
  "diff_entry example_old_files (ascii ''/_next/static/chunks/page.js'')
       (ascii ''function render(){return newBanner}'')
     = changed_open @ ascii ''/_next/static/chunks/page.js'' @ changed_close
         @ token_line added_label [ascii ''newBanner'']
         @ token_line removed_label [ascii ''oldBanner'']
   \<and> long_token (ascii ''newBanner'') \<and> long_token (ascii ''oldBanner'')
   \<and> (\<exists>A R. list_all long_token A \<and> list_all long_token R \<and> length A \<le> 40 \<and> length R \<le> 40
        \<and> (diff_entry example_old_files (ascii ''/_next/static/chunks/page.js'')
               (ascii ''function render(){return newBanner}'') = []
           \<or> diff_entry example_old_files (ascii ''/_next/static/chunks/page.js'')
               (ascii ''function render(){return newBanner}'')
               = new_module_label @ ascii ''/_next/static/chunks/page.js'' @ [0x0A]
           \<or> diff_entry example_old_files (ascii ''/_next/static/chunks/page.js'')
               (ascii ''function render(){return newBanner}'')
               = changed_open @ ascii ''/_next/static/chunks/page.js'' @ changed_close
                   @ token_line added_label A @ token_line removed_label R))"
proof -
  have written: "diff_entry example_old_files (ascii ''/_next/static/chunks/page.js'')
       (ascii ''function render(){return newBanner}'')
     = changed_open @ ascii ''/_next/static/chunks/page.js'' @ changed_close
         @ token_line added_label [ascii ''newBanner'']
         @ token_line removed_label [ascii ''oldBanner'']"
    by code_simp
  have long: "long_token (ascii ''newBanner'') \<and> long_token (ascii ''oldBanner'')"
    by code_simp
  from written long
    diff_lines_list_long_tokens [of example_old_files "[]" "ascii ''/_next/static/chunks/page.js''"
      "ascii ''function render(){return newBanner}''"]
  show ?thesis by blast
qed

text \<open>
  A changed module whose block has 3003 code units: the cut at 3000 removes the end of
  the last token of the line of added tokens, and the text returned lists \<open>bc\<close>, which
  has 2 code units, where the full line lists the token \<open>bcde\<close>.
\<close>

lemma length_example_long_name: "length example_long_name = 2964"
  by (simp add: example_long_name_def chunks_dir_def ascii_def dot_js_def)

lemma example_tokens:
  "added (ascii ''x'') (ascii ''abcd bcde'') = [ascii ''abcd'', ascii ''bcde'']"
  "removed (ascii ''x'') (ascii ''abcd bcde'') = []"
  by code_simp+

lemma cut_entry:
  "diff_entry [(example_long_name, ascii ''x'')] example_long_name (ascii ''abcd bcde'')
     = changed_open @ example_long_name @ changed_close
         @ added_label @ join comma_space [ascii ''abcd'', ascii ''bcde''] @ [0x0A]"
  by (simp add: diff_entry_def example_tokens) (simp add: ascii_def)

theorem cut_leaves_short_item:
  "generateDiff [(example_long_name, ascii ''x'')] [(example_long_name, ascii ''abcd bcde'')]
     = changed_open @ example_long_name @ changed_close
         @ added_label @ join comma_space [ascii ''abcd'', ascii ''bc'']
   \<and> length (ascii ''bc'') = 2"
proof -
  have "generateDiff [(example_long_name, ascii ''x'')] [(example_long_name, ascii ''abcd bcde'')]
      = take 3000 (changed_open @ example_long_name @ changed_close
         @ added_label @ join comma_space [ascii ''abcd'', ascii ''bcde''] @ [0x0A])"
    by (simp add: generateDiff_def cut_entry)
  also have "\<dots> = changed_open @ example_long_name @ changed_close
         @ added_label @ join comma_space [ascii ''abcd'', ascii ''bc'']"
    by (simp add: length_example_long_name changed_open_def changed_close_def added_label_def
        comma_space_def ascii_def)
  finally show ?thesis by (simp add: ascii_def)
qed

lemma diff_entry_cong:
  "map_of oldFiles path = map_of oldFiles' path
   \<Longrightarrow> diff_entry oldFiles path newContent = diff_entry oldFiles' path newContent"
  by (simp add: diff_entry_def)

text \<open>
  C8. The diff walks over the modules of the new map only and reads the old map at their
  names alone: two old maps that agree on the names of the new map give the same diff.
  So a module that is in the old map and not in the new one contributes nothing.
\<close>

theorem generateDiff_new_modules_only:
  assumes "\<forall>path \<in> fst ` set newFiles. map_of oldFiles path = map_of oldFiles' path"
  shows "generateDiff oldFiles newFiles = generateDiff oldFiles' newFiles"
proof -
  have "map (\<lambda>(path, newContent). diff_entry oldFiles path newContent) newFiles
      = map (\<lambda>(path, newContent). diff_entry oldFiles' path newContent) newFiles"
    using assms by (auto intro!: diff_entry_cong)
  then show ?thesis by (simp only: generateDiff_concat)
qed

theorem generateDiff_new_modules_only_witness:
  "map_of example_old_files (ascii ''/_next/static/chunks/gone.js'') = Some (ascii ''legacyWidget()'')
   \<and> map_of (take 1 example_old_files) (ascii ''/_next/static/chunks/gone.js'') = None
   \<and> map_of example_old_files (ascii ''/_next/static/chunks/page.js'')
       = map_of (take 1 example_old_files) (ascii ''/_next/static/chunks/page.js'')
   \<and> generateDiff example_old_files [(ascii ''/_next/static/chunks/page.js'', ascii ''newBanner()'')]
       = generateDiff (take 1 example_old_files)
           [(ascii ''/_next/static/chunks/page.js'', ascii ''newBanner()'')]"
proof -
  have gone: "map_of example_old_files (ascii ''/_next/static/chunks/gone.js'') = Some (ascii ''legacyWidget()'')
      \<and> map_of (take 1 example_old_files) (ascii ''/_next/static/chunks/gone.js'') = None"
    by (simp add: example_old_files_def ascii_def)
  have page: "map_of example_old_files (ascii ''/_next/static/chunks/page.js'')
      = map_of (take 1 example_old_files) (ascii ''/_next/static/chunks/page.js'')"
    by (simp add: example_old_files_def)
  then have agree: "\<forall>path \<in> fst ` set [(ascii ''/_next/static/chunks/page.js'', ascii ''newBanner()'')].
       map_of example_old_files path = map_of (take 1 example_old_files) path"
    by simp
  from gone page generateDiff_new_modules_only [OF agree] show ?thesis by blast
qed

section \<open>Properties of the summarizer client\<close>

lemma dropWhile_all_iff: "(\<forall>x \<in> set (dropWhile P xs). P x) \<longleftrightarrow> dropWhile P xs = []"
proof (cases "dropWhile P xs")
  case Nil
  show ?thesis unfolding Nil by simp
next
  case (Cons y ys)
  then have "\<not> P y" using hd_dropWhile [of P xs] by simp
  then show ?thesis unfolding Cons by auto
qed

lemma trim_empty_iff: "trim str = [] \<longleftrightarrow> (\<forall>c \<in> set str. is_white_space c)"
  by (simp add: trim_def dropWhile_all_iff)

lemma trim_white: "\<forall>c \<in> set str. is_white_space c \<Longrightarrow> trim str = []"
  by (simp add: trim_empty_iff)

text \<open>
  C9. For a diff text that is empty or made of white space only, \<open>getAIPatchSummary\<close>
  returns the fixed sentence for a trivial change and leaves the run state as it was:
  no event is added to the trace, so the text-generation endpoint is not called.
\<close>

theorem blank_diff_fallback:
  "\<forall>c \<in> set diffText. is_white_space c
   \<Longrightarrow> getAIPatchSummary w e diffText s = (trivial_change, s)"
  by (simp add: getAIPatchSummary_def trim_white)

theorem blank_diff_fallback_witness:
  "is_white_space 0x0A \<and> is_white_space 0x20 \<and> is_white_space 0x09
   \<and> getAIPatchSummary example_world example_env [0x0A, 0x20, 0x09] example_state
       = (trivial_change, example_state)"
proof -
  have each: "is_white_space 0x0A \<and> is_white_space 0x20 \<and> is_white_space 0x09"
    by (simp add: is_white_space_def)
  then have blank: "\<forall>c \<in> set [0x0A, 0x20, 0x09]. is_white_space c"
    by simp
  from each blank_diff_fallback [OF blank] show ?thesis by blast
qed

section \<open>Properties of the orchestrator\<close>

lemma store_emit [simp]: "store (emit ev s) = store s"
  by (simp add: emit_def)

lemma trace_emit [simp]: "trace (emit ev s) = trace s @ [ev]"
  by (simp add: emit_def)

lemma fetchPageData_resolves:
  "page_response w = Response status (Some html) \<Longrightarrow> ok status
   \<Longrightarrow> fetchPageData w url s = (Some (find_buildId html, find_scripts html), emit (Fetch url) s)"
  by (simp add: fetchPageData_def)

lemma buildId_here_Some:
  assumes "buildId_here str = Some token"
  shows "\<exists>post. str = buildId_marker @ token @ quote # post \<and> token \<noteq> [] \<and> quote \<notin> set token"
proof -
  let ?r = "drop (length buildId_marker) str"
  from assms have st: "starts_with buildId_marker str"
    and tok: "token = takeWhile (\<lambda>c. c \<noteq> quote) ?r" and ne: "token \<noteq> []"
    and rest: "dropWhile (\<lambda>c. c \<noteq> quote) ?r \<noteq> []"
    by (auto simp: buildId_here_def Let_def split: if_splits)
  from rest obtain q post where qp: "dropWhile (\<lambda>c. c \<noteq> quote) ?r = q # post"
    by (cases "dropWhile (\<lambda>c. c \<noteq> quote) ?r") auto
  have "q = quote" using hd_dropWhile [OF rest] qp by simp
  have "str = buildId_marker @ ?r"
    using st append_take_drop_id [of "length buildId_marker" str] by (simp add: starts_with_def)
  also have "?r = token @ quote # post"
    using takeWhile_dropWhile_id [of "\<lambda>c. c \<noteq> quote" ?r] qp tok \<open>q = quote\<close> by simp
  finally have "str = buildId_marker @ token @ quote # post" .
  moreover have "quote \<notin> set token"
    using tok by (auto dest: set_takeWhileD)
  ultimately show ?thesis using ne by blast
qed

lemma takeWhile_until:
  "q \<notin> set t \<Longrightarrow> takeWhile (\<lambda>c. c \<noteq> q) (t @ q # post) = t"
  by (induction t) auto

lemma dropWhile_until:
  "q \<notin> set t \<Longrightarrow> dropWhile (\<lambda>c. c \<noteq> q) (t @ q # post) = q # post"
  by (induction t) auto

lemma buildId_here_match:
  assumes "token \<noteq> []" "quote \<notin> set token"
  shows "buildId_here (buildId_marker @ token @ quote # post) = Some token"
proof -
  have "takeWhile (\<lambda>c. c \<noteq> quote) (token @ quote # post) = token"
    using assms(2) by (rule takeWhile_until)
  moreover have "dropWhile (\<lambda>c. c \<noteq> quote) (token @ quote # post) = quote # post"
    using assms(2) by (rule dropWhile_until)
  ultimately show ?thesis using assms(1)
    by (simp add: buildId_here_def starts_with_def)
qed

lemma find_buildId_Some:
  "find_buildId html = Some token
   \<Longrightarrow> \<exists>pre post. html = pre @ buildId_marker @ token @ quote # post \<and> token \<noteq> [] \<and> quote \<notin> set token"
proof (induction html)
  case Nil
  then show ?case by simp
next
  case (Cons c cs)
  show ?case
  proof (cases "buildId_here (c # cs)")
    case None
    with Cons.prems have "find_buildId cs = Some token" by simp
    then obtain pre post where "cs = pre @ buildId_marker @ token @ quote # post" "token \<noteq> []" "quote \<notin> set token"
      using Cons.IH by blast
    then have "c # cs = (c # pre) @ buildId_marker @ token @ quote # post \<and> token \<noteq> [] \<and> quote \<notin> set token"
      by simp
    then show ?thesis by blast
  next
    case (Some t)
    with Cons.prems have "t = token" by simp
    with Some obtain post where "c # cs = [] @ buildId_marker @ token @ quote # post \<and> token \<noteq> [] \<and> quote \<notin> set token"
      using buildId_here_Some by fastforce
    then show ?thesis by blast
  qed
qed

lemma find_buildId_finds:
  assumes "token \<noteq> []" "quote \<notin> set token"
  shows "find_buildId (pre @ buildId_marker @ token @ quote # post) \<noteq> None"
proof (induction pre)
  case Nil
  then show ?case using buildId_here_match [OF assms, of post]
    by (simp add: buildId_marker_def)
next
  case (Cons c pre)
  then show ?case by (simp split: option.splits)
qed

lemma find_buildId_None_iff:
  "find_buildId html = None \<longleftrightarrow>
     (\<nexists>pre token post. html = pre @ buildId_marker @ token @ quote # post \<and> token \<noteq> [] \<and> quote \<notin> set token)"
  using find_buildId_Some find_buildId_finds by (metis option.exhaust)

lemma find_buildId_truthy: "find_buildId html = Some token \<Longrightarrow> token \<noteq> []"
  using find_buildId_Some by blast

text \<open>
  C5. When the page is fetched and its markup has no match for the build identifier
  pattern (the marker, a non-empty token without a double quote, a double quote), the
  run ends at the early \<open>return\<close>: the \<open>catch\<close> block is not entered, and the run state
  is the initial one with the page request as its only new event. So neither key of
  the store is written, and neither the summarizer nor the notifier is called.
\<close>

theorem missing_buildId_aborts:
  assumes "page_response w = Response status (Some html)" and "ok status"
    and "\<nexists>pre token post. html = pre @ buildId_marker @ token @ quote # post \<and> token \<noteq> [] \<and> quote \<notin> set token"
  shows "checkTask P w e s = (ABORTED, emit (Fetch (TARGET_URL e)) s)"
proof -
  have "find_buildId html = None" using assms(3) by (simp only: find_buildId_None_iff not_False_eq_True)
  then show ?thesis
    using assms(1,2) by (simp add: checkTask_def fetchPageData_resolves truthy_def)
qed

theorem missing_buildId_aborts_witness:
  "page_response example_world_no_buildId = Response 200 (Some (ascii ''<html>maintenance</html>''))
   \<and> ok 200
   \<and> (\<nexists>pre token post. ascii ''<html>maintenance</html>'' = pre @ buildId_marker @ token @ quote # post
         \<and> token \<noteq> [] \<and> quote \<notin> set token)
   \<and> checkTask example_platform example_world_no_buildId example_env example_state
       = (ABORTED, emit (Fetch (TARGET_URL example_env)) example_state)"
proof -
  have page: "page_response example_world_no_buildId
      = Response 200 (Some (ascii ''<html>maintenance</html>''))"
    by (simp add: example_world_no_buildId_def example_world_def)
  have status: "ok 200" by (simp add: ok_def)
  have "find_buildId (ascii ''<html>maintenance</html>'') = None" by code_simp
  then have none: "\<nexists>pre token post.
      ascii ''<html>maintenance</html>'' = pre @ buildId_marker @ token @ quote # post
      \<and> token \<noteq> [] \<and> quote \<notin> set token"
    by (rule iffD1 [OF find_buildId_None_iff])
  from page status none missing_buildId_aborts [OF page status none] show ?thesis by blast
qed

lemma settle_state:
  "\<exists>evs. snd (foldl settle acc L) = (snd acc)\<lparr>trace := trace (snd acc) @ evs\<rparr> \<and> list_all silent evs"
proof (induction L arbitrary: acc)
  case Nil
  show ?case by (rule exI [of _ "[]"]) simp
next
  case (Cons x L)
  obtain fs s where acc: "acc = (fs, s)" by (cases acc)
  obtain p r where x: "x = (p, r)" by (cases x)
  have "\<exists>pre. snd (settle acc x) = s\<lparr>trace := trace s @ pre\<rparr> \<and> list_all silent pre"
  proof (cases "body_of r")
    case None
    then have "snd (settle acc x) = s\<lparr>trace := trace s @ [Console (Script_failed p)]\<rparr>"
      unfolding acc x by (cases r rule: body_of.cases) (simp_all add: emit_def)
    moreover have "list_all silent [Console (Script_failed p)]" by (simp add: silent_def)
    ultimately show ?thesis by blast
  next
    case (Some c)
    then have "snd (settle acc x) = s\<lparr>trace := trace s @ []\<rparr>"
      unfolding acc x by (cases r rule: body_of.cases) simp_all
    moreover have "list_all silent []" by simp
    ultimately show ?thesis by blast
  qed
  then obtain pre where pre: "snd (settle acc x) = s\<lparr>trace := trace s @ pre\<rparr>" "list_all silent pre"
    by blast
  from Cons.IH [of "settle acc x"] obtain evs where
    evs: "snd (foldl settle (settle acc x) L)
      = (snd (settle acc x))\<lparr>trace := trace (snd (settle acc x)) @ evs\<rparr>" "list_all silent evs"
    by blast
  have "snd (foldl settle acc (x # L)) = (snd acc)\<lparr>trace := trace (snd acc) @ (pre @ evs)\<rparr>"
    using evs(1) pre(1) acc by simp
  moreover have "list_all silent (pre @ evs)" using pre(2) evs(2) by simp
  ultimately show ?case by blast
qed

lemma settle_files_independent:
  "fst (foldl settle (fs, s) L) = fst (foldl settle (fs, s') L)"
proof (induction L arbitrary: fs s s')
  case Nil
  show ?case by simp
next
  case (Cons x L)
  obtain p r where x: "x = (p, r)" by (cases x)
  obtain fs1 s1 where a: "settle (fs, s) x = (fs1, s1)" by fastforce
  obtain fs2 s2 where b: "settle (fs, s') x = (fs2, s2)" by fastforce
  have "fs1 = fs2" using a b unfolding x by (cases r rule: body_of.cases) auto
  then show ?case using a b Cons.IH [of fs1 s1 s2] by simp
qed

lemma emit_all:
  "foldl (\<lambda>s x. emit (f x) s) s xs = s\<lparr>trace := trace s @ map f xs\<rparr>"
  by (induction xs arbitrary: s) (simp_all add: emit_def)

lemma fetchJsContents_state:
  "\<exists>evs. snd (fetchJsContents P w url paths s) = s\<lparr>trace := trace s @ evs\<rparr> \<and> list_all silent evs"
proof -
  let ?origin = "url_origin P url"
  let ?s1 = "s\<lparr>trace := trace s @ map (\<lambda>path. Fetch (?origin @ path)) paths\<rparr>"
  obtain evs where evs: "snd (foldl settle ([], ?s1) (settled w ?origin paths))
      = ?s1\<lparr>trace := trace ?s1 @ evs\<rparr>" "list_all silent evs"
    using settle_state [of "([], ?s1)" "settled w ?origin paths"] by auto
  have "snd (fetchJsContents P w url paths s)
      = s\<lparr>trace := trace s @ (map (\<lambda>path. Fetch (?origin @ path)) paths @ evs)\<rparr>"
    using evs(1) by (simp add: fetchJsContents_def emit_all Let_def)
  moreover have "list_all silent (map (\<lambda>path. Fetch (?origin @ path)) paths @ evs)"
    using evs(2) by (auto simp: list_all_iff silent_def)
  ultimately show ?thesis by blast
qed

lemma fetchJsContents_files_independent:
  "fst (fetchJsContents P w url paths s) = fst (fetchJsContents P w url paths s')"
  by (simp add: fetchJsContents_def Let_def settle_files_independent)


lemma fetchJsContents_effect:
  obtains files evs where
    "fetchJsContents P w url paths s = (files, s\<lparr>trace := trace s @ evs\<rparr>)"
    "list_all silent evs"
    "files = fst (fetchJsContents P w url paths s')"
proof -
  obtain evs where "snd (fetchJsContents P w url paths s) = s\<lparr>trace := trace s @ evs\<rparr>"
    "list_all silent evs"
    using fetchJsContents_state by blast
  moreover have "fst (fetchJsContents P w url paths s) = fst (fetchJsContents P w url paths s')"
    by (rule fetchJsContents_files_independent)
  ultimately show ?thesis using that [of "fst (fetchJsContents P w url paths s)" evs]
    by (metis prod.collapse)
qed

lemma silent_quiet [simp]:
  "silent (Fetch u)" "silent (KV_get k)" "silent (Console (No_update b))"
  "silent (Console Check_failed)" "silent (Console (First_write b))"
  by (simp_all add: silent_def)

lemma silent_others [simp]:
  "silent (Console (Update_found a b))" "silent (Console Calling_AI)" "silent (Console AI_failed)"
  by (simp_all add: silent_def)

lemma getAIPatchSummary_store [simp]:
  "store (snd (getAIPatchSummary w e diffText s)) = store s"
  by (simp add: getAIPatchSummary_def Let_def split: llm_result.splits option.splits)

lemma getAIPatchSummary_trace:
  "\<exists>evs. trace (snd (getAIPatchSummary w e diffText s)) = trace s @ evs
     \<and> list_all (\<lambda>ev. \<not> is_notification ev \<and> \<not> is_store_write ev) evs"
  by (simp add: getAIPatchSummary_def Let_def split: llm_result.splits option.splits)

text \<open>
  C3. The build identifier alone decides whether a run reports a change. When the page is
  fetched and the identifier found in it is the stored \<open>LAST_BUILD_ID\<close>, the store is
  left as it was and every event of the run is silent: no key is written, the
  summarizer and the notifier are not called, and no diff is logged (the branch that
  calls \<open>generateDiff\<close> is not entered). This holds whatever the fetched scripts and the
  stored ones are. The run ends in the \<open>else\<close> branch; only a stored scripts blob that
  \<open>JSON.parse\<close> rejects sends it to the \<open>catch\<close> block instead, with the same silence.
\<close>

theorem same_buildId_no_change:
  assumes "page_response w = Response status (Some html)" and "ok status"
    and "find_buildId html = Some buildId"
    and "store s LAST_BUILD_ID = Some buildId"
  shows "store (snd (checkTask P w e s)) = store s
    \<and> list_all silent (events_of_run s (snd (checkTask P w e s)))
    \<and> (fst (checkTask P w e s) = NO_CHANGE \<or> fst (checkTask P w e s) = FAILED)
    \<and> (scripts_blob_readable P s \<longrightarrow> fst (checkTask P w e s) = NO_CHANGE)"
proof -
  obtain files evs where f:
    "fetchJsContents P w (TARGET_URL e) (find_scripts html) (emit (Fetch (TARGET_URL e)) s)
      = (files, (emit (Fetch (TARGET_URL e)) s)\<lparr>trace := trace (emit (Fetch (TARGET_URL e)) s) @ evs\<rparr>)"
    and q: "list_all silent evs"
    by (rule fetchJsContents_effect)
  have ne: "buildId \<noteq> []" using assms(3) by (rule find_buildId_truthy)
  show ?thesis
    using assms ne q
    by (auto simp: checkTask_def fetchPageData_resolves f truthy_def kv_get_def caught_def
        events_of_run_def scripts_blob_readable_def split: option.splits)
qed

theorem same_buildId_no_change_witness:
  "page_response example_world = Response 200 (Some example_page) \<and> ok 200
   \<and> find_buildId example_page = Some (ascii ''B2'')
   \<and> store example_state_same_build LAST_BUILD_ID = Some (ascii ''B2'')
   \<and> scripts_blob_readable example_platform example_state_same_build
   \<and> store (snd (checkTask example_platform example_world example_env example_state_same_build))
       = store example_state_same_build
   \<and> list_all silent (events_of_run example_state_same_build
        (snd (checkTask example_platform example_world example_env example_state_same_build)))
   \<and> fst (checkTask example_platform example_world example_env example_state_same_build) = NO_CHANGE"
proof -
  have page: "page_response example_world = Response 200 (Some example_page)"
    by (simp add: example_world_def)
  have status: "ok 200" by (simp add: ok_def)
  have found: "find_buildId example_page = Some (ascii ''B2'')" by code_simp
  have stored: "store example_state_same_build LAST_BUILD_ID = Some (ascii ''B2'')"
    by (simp add: example_state_same_build_def LAST_BUILD_ID_def LAST_JS_FILES_def ascii_def)
  have readable: "scripts_blob_readable example_platform example_state_same_build"
    by (simp add: scripts_blob_readable_def example_state_same_build_def example_platform_def
        truthy_def example_stringify_def)
  from page status found stored readable
    same_buildId_no_change [OF page status found stored, of example_platform example_env]
  show ?thesis by blast
qed

text \<open>
  C4. When the page is fetched, a build identifier is found in it and the store holds no
  build identifier (the key is absent or empty; the scripts blob, if there is one, is
  readable), the run ends at the \<open>return\<close> of the first run: it writes the build
  identifier found to \<open>LAST_BUILD_ID\<close> and the serialized map of the fetched scripts to
  \<open>LAST_JS_FILES\<close>, and it calls neither the notifier nor the summarizer.
\<close>

theorem first_run_bootstraps:
  assumes "page_response w = Response status (Some html)" and "ok status"
    and "find_buildId html = Some buildId"
    and "\<not> truthy (store s LAST_BUILD_ID)"
    and "scripts_blob_readable P s"
  shows "fst (checkTask P w e s) = BOOTSTRAP
    \<and> store (snd (checkTask P w e s))
        = (store s)(LAST_BUILD_ID \<mapsto> buildId,
             LAST_JS_FILES \<mapsto> JSON_stringify P (fst (fetchJsContents P w (TARGET_URL e) (find_scripts html) s)))
    \<and> list_all (\<lambda>ev. \<not> is_notification ev \<and> \<not> is_summarizer_call ev)
        (events_of_run s (snd (checkTask P w e s)))"
proof -
  obtain files evs where f:
    "fetchJsContents P w (TARGET_URL e) (find_scripts html) (emit (Fetch (TARGET_URL e)) s)
      = (files, (emit (Fetch (TARGET_URL e)) s)\<lparr>trace := trace (emit (Fetch (TARGET_URL e)) s) @ evs\<rparr>)"
    and q: "list_all silent evs"
    and files: "files = fst (fetchJsContents P w (TARGET_URL e) (find_scripts html) s)"
    by (rule fetchJsContents_effect)
  have ne: "buildId \<noteq> []" using assms(3) by (rule find_buildId_truthy)
  have q': "list_all (\<lambda>ev. \<not> is_notification ev \<and> \<not> is_summarizer_call ev) evs"
    using q by (simp add: list_all_iff silent_def)
  show ?thesis
    using assms ne q'
    by (auto simp: checkTask_def fetchPageData_resolves f files [symmetric] truthy_def kv_get_def kv_put_def caught_def
        persist_def events_of_run_def scripts_blob_readable_def split: option.splits if_splits)
qed

theorem first_run_bootstraps_witness:
  "page_response example_world = Response 200 (Some example_page) \<and> ok 200
   \<and> find_buildId example_page = Some (ascii ''B2'')
   \<and> \<not> truthy (store example_state_empty LAST_BUILD_ID)
   \<and> scripts_blob_readable example_platform example_state_empty
   \<and> fst (checkTask example_platform example_world example_env example_state_empty) = BOOTSTRAP
   \<and> store (snd (checkTask example_platform example_world example_env example_state_empty))
       = (store example_state_empty)(LAST_BUILD_ID \<mapsto> ascii ''B2'',
            LAST_JS_FILES \<mapsto> JSON_stringify example_platform
              (fst (fetchJsContents example_platform example_world (TARGET_URL example_env)
                 (find_scripts example_page) example_state_empty)))
   \<and> list_all (\<lambda>ev. \<not> is_notification ev \<and> \<not> is_summarizer_call ev)
        (events_of_run example_state_empty
           (snd (checkTask example_platform example_world example_env example_state_empty)))"
proof -
  have page: "page_response example_world = Response 200 (Some example_page)"
    by (simp add: example_world_def)
  have status: "ok 200" by (simp add: ok_def)
  have found: "find_buildId example_page = Some (ascii ''B2'')" by code_simp
  have none: "\<not> truthy (store example_state_empty LAST_BUILD_ID)"
    by (simp add: example_state_empty_def truthy_def)
  have readable: "scripts_blob_readable example_platform example_state_empty"
    by (simp add: scripts_blob_readable_def example_state_empty_def truthy_def)
  from page status found none readable
    first_run_bootstraps [OF page status found none readable, of example_env]
  show ?thesis by blast
qed

lemma checkTask_update:
  assumes "page_response w = Response status (Some html)" and "ok status"
    and "find_buildId html = Some buildId"
    and "store s LAST_BUILD_ID = Some lastBuildId" and "lastBuildId \<noteq> []"
    and "lastBuildId \<noteq> buildId"
    and "scripts_blob_readable P s"
  shows "(if discord_resolves w
          then fst (checkTask P w e s) = CHANGED
             \<and> store (snd (checkTask P w e s))
                 = (store s)(LAST_BUILD_ID \<mapsto> buildId,
                      LAST_JS_FILES \<mapsto> JSON_stringify P
                        (fst (fetchJsContents P w (TARGET_URL e) (find_scripts html) s)))
          else fst (checkTask P w e s) = FAILED
             \<and> store (snd (checkTask P w e s)) = store s)
    \<and> list_ex is_notification (events_of_run s (snd (checkTask P w e s)))"
proof -
  obtain files evs where f:
    "fetchJsContents P w (TARGET_URL e) (find_scripts html) (emit (Fetch (TARGET_URL e)) s)
      = (files, (emit (Fetch (TARGET_URL e)) s)\<lparr>trace := trace (emit (Fetch (TARGET_URL e)) s) @ evs\<rparr>)"
    and files: "files = fst (fetchJsContents P w (TARGET_URL e) (find_scripts html) s)"
    by (rule fetchJsContents_effect)
  have ne: "buildId \<noteq> []" using assms(3) by (rule find_buildId_truthy)
  define s6 where "s6 = emit (Console Calling_AI)
     (emit (Console (Diff_fragment (generateDiff (stored_scripts P s) files)))
       (emit (Console (Update_found lastBuildId buildId))
         (emit (KV_get LAST_JS_FILES) (emit (KV_get LAST_BUILD_ID)
           ((emit (Fetch (TARGET_URL e)) s)\<lparr>trace := trace (emit (Fetch (TARGET_URL e)) s) @ evs\<rparr>)))))"
  obtain summary s7 where g:
    "getAIPatchSummary w e (generateDiff (stored_scripts P s) files) s6 = (summary, s7)"
    by fastforce
  have s7: "s7 = snd (getAIPatchSummary w e (generateDiff (stored_scripts P s) files) s6)"
    by (simp only: g snd_conv)
  have "store s7 = store s6"
    by (simp only: s7 getAIPatchSummary_store)
  then have st7: "store s7 = store s"
    by (simp add: s6_def)
  obtain evs7 where tr7: "trace s7 = trace s6 @ evs7"
    using getAIPatchSummary_trace [of w e "generateDiff (stored_scripts P s) files" s6] g by auto
  have run: "checkTask P w e s =
     (if discord_resolves w
      then (CHANGED, persist P buildId files
              (emit (Discord_post (DISCORD_WEBHOOK_URL e) lastBuildId buildId summary) s7))
      else caught (emit (Discord_post (DISCORD_WEBHOOK_URL e) lastBuildId buildId summary) s7))"
    using assms ne g
    by (auto simp: checkTask_def fetchPageData_resolves f truthy_def kv_get_def
        scripts_blob_readable_def stored_scripts_def sendDiscordNotification_def s6_def
        split: option.splits if_splits)
  have len: "length (trace s) \<le> length (trace s6)" by (simp add: s6_def)
  show ?thesis
    using st7 tr7 len
    by (auto simp: run files [symmetric] persist_def kv_put_def caught_def events_of_run_def
        list_ex_iff s6_def)
qed

lemma checkTask_update_events:
  assumes "page_response w = Response status (Some html)" and "ok status"
    and "find_buildId html = Some buildId"
    and "store s LAST_BUILD_ID = Some lastBuildId" and "lastBuildId \<noteq> []"
    and "lastBuildId \<noteq> buildId"
    and "scripts_blob_readable P s"
  shows "\<exists>before summary.
      list_all (\<lambda>ev. \<not> is_notification ev \<and> \<not> is_store_write ev) before
      \<and> events_of_run s (snd (checkTask P w e s))
          = before @ Discord_post (DISCORD_WEBHOOK_URL e) lastBuildId buildId summary
              # (if discord_resolves w
                 then [KV_put LAST_BUILD_ID buildId,
                       KV_put LAST_JS_FILES (JSON_stringify P
                         (fst (fetchJsContents P w (TARGET_URL e) (find_scripts html) s)))]
                 else [Console Check_failed])"
proof -
  obtain files evs where f:
    "fetchJsContents P w (TARGET_URL e) (find_scripts html) (emit (Fetch (TARGET_URL e)) s)
      = (files, (emit (Fetch (TARGET_URL e)) s)\<lparr>trace := trace (emit (Fetch (TARGET_URL e)) s) @ evs\<rparr>)"
    and q: "list_all silent evs"
    and files: "files = fst (fetchJsContents P w (TARGET_URL e) (find_scripts html) s)"
    by (rule fetchJsContents_effect)
  have ne: "buildId \<noteq> []" using assms(3) by (rule find_buildId_truthy)
  define diffText where "diffText = generateDiff (stored_scripts P s) files"
  define head where "head = Fetch (TARGET_URL e) # evs
     @ [KV_get LAST_BUILD_ID, KV_get LAST_JS_FILES, Console (Update_found lastBuildId buildId),
        Console (Diff_fragment diffText), Console Calling_AI]"
  define s6 where "s6 = emit (Console Calling_AI)
     (emit (Console (Diff_fragment diffText))
       (emit (Console (Update_found lastBuildId buildId))
         (emit (KV_get LAST_JS_FILES) (emit (KV_get LAST_BUILD_ID)
           ((emit (Fetch (TARGET_URL e)) s)\<lparr>trace := trace (emit (Fetch (TARGET_URL e)) s) @ evs\<rparr>)))))"
  have tr6: "trace s6 = trace s @ head" by (simp add: s6_def head_def)
  have quiet_head: "list_all (\<lambda>ev. \<not> is_notification ev \<and> \<not> is_store_write ev) head"
    using q by (auto simp: head_def list_all_iff silent_def)
  obtain summary s7 where g: "getAIPatchSummary w e diffText s6 = (summary, s7)"
    by fastforce
  obtain evs7 where tr7: "trace s7 = trace s6 @ evs7"
    and quiet7: "list_all (\<lambda>ev. \<not> is_notification ev \<and> \<not> is_store_write ev) evs7"
    using getAIPatchSummary_trace [of w e diffText s6] g by auto
  have run: "checkTask P w e s =
     (if discord_resolves w
      then (CHANGED, persist P buildId files
              (emit (Discord_post (DISCORD_WEBHOOK_URL e) lastBuildId buildId summary) s7))
      else caught (emit (Discord_post (DISCORD_WEBHOOK_URL e) lastBuildId buildId summary) s7))"
    using assms ne g
    by (auto simp: checkTask_def fetchPageData_resolves f truthy_def kv_get_def
        scripts_blob_readable_def stored_scripts_def sendDiscordNotification_def s6_def
        diffText_def split: option.splits if_splits)
  have "events_of_run s (snd (checkTask P w e s))
      = (head @ evs7) @ Discord_post (DISCORD_WEBHOOK_URL e) lastBuildId buildId summary
          # (if discord_resolves w
             then [KV_put LAST_BUILD_ID buildId, KV_put LAST_JS_FILES (JSON_stringify P files)]
             else [Console Check_failed])"
    by (simp add: run persist_def kv_put_def caught_def events_of_run_def tr7 tr6)
  moreover have "list_all (\<lambda>ev. \<not> is_notification ev \<and> \<not> is_store_write ev) (head @ evs7)"
    using quiet_head quiet7 by simp
  ultimately show ?thesis unfolding files by blast
qed

text \<open>
  C1. In the update branch the store is written after the notification step and only
  when that step returns. When the page is fetched, the identifier found differs from the
  stored one and the stored scripts blob is readable, the run calls the webhook exactly
  once, with the stored and the new build identifier, and writes nothing to the store
  before that call. If the request of the call resolves (whatever the status of the
  response), the two writes follow it and end the run: \<open>LAST_BUILD_ID\<close> and
  \<open>LAST_JS_FILES\<close> are set to the new build identifier and the serialized new scripts
  map. If the request rejects, the exception reaches the \<open>catch\<close> block of \<open>checkTask\<close>:
  the run ends with the error message, no write, and the store as it was.
\<close>

theorem persistence_follows_delivered_notification:
  assumes "page_response w = Response status (Some html)" and "ok status"
    and "find_buildId html = Some buildId"
    and "store s LAST_BUILD_ID = Some lastBuildId" and "lastBuildId \<noteq> []"
    and "lastBuildId \<noteq> buildId"
    and "scripts_blob_readable P s"
  shows "(if discord_resolves w
          then fst (checkTask P w e s) = CHANGED
             \<and> store (snd (checkTask P w e s))
                 = (store s)(LAST_BUILD_ID \<mapsto> buildId,
                      LAST_JS_FILES \<mapsto> JSON_stringify P
                        (fst (fetchJsContents P w (TARGET_URL e) (find_scripts html) s)))
          else fst (checkTask P w e s) = FAILED
             \<and> store (snd (checkTask P w e s)) = store s)
    \<and> (\<exists>before summary.
          list_all (\<lambda>ev. \<not> is_notification ev \<and> \<not> is_store_write ev) before
          \<and> events_of_run s (snd (checkTask P w e s))
              = before @ Discord_post (DISCORD_WEBHOOK_URL e) lastBuildId buildId summary
                  # (if discord_resolves w
                     then [KV_put LAST_BUILD_ID buildId,
                           KV_put LAST_JS_FILES (JSON_stringify P
                             (fst (fetchJsContents P w (TARGET_URL e) (find_scripts html) s)))]
                     else [Console Check_failed]))"
  using checkTask_update [OF assms, of e] checkTask_update_events [OF assms, of e] by blast

lemma example_update_run:
  "page_response example_world = Response 200 (Some example_page)"
  "page_response example_world_delivered = Response 200 (Some example_page)"
  "ok 200"
  "find_buildId example_page = Some (ascii ''B2'')"
  "store example_state LAST_BUILD_ID = Some (ascii ''B1'')"
  "ascii ''B1'' \<noteq> []"
  "ascii ''B1'' \<noteq> ascii ''B2''"
  "scripts_blob_readable example_platform example_state"
proof -
  show "page_response example_world = Response 200 (Some example_page)"
    by (simp add: example_world_def)
  show "page_response example_world_delivered = Response 200 (Some example_page)"
    by (simp add: example_world_delivered_def example_world_def)
  show "ok 200" by (simp add: ok_def)
  show "find_buildId example_page = Some (ascii ''B2'')" by code_simp
  show "store example_state LAST_BUILD_ID = Some (ascii ''B1'')"
    by (simp add: example_state_def LAST_BUILD_ID_def LAST_JS_FILES_def ascii_def)
  show "ascii ''B1'' \<noteq> []" by (simp add: ascii_def)
  show "ascii ''B1'' \<noteq> ascii ''B2''" by (simp add: ascii_def)
  show "scripts_blob_readable example_platform example_state"
    by (simp add: scripts_blob_readable_def example_state_def example_platform_def
        truthy_def example_stringify_def)
qed

theorem persistence_follows_delivered_notification_witness:
  "page_response example_world_delivered = Response 200 (Some example_page) \<and> ok 200
   \<and> find_buildId example_page = Some (ascii ''B2'')
   \<and> store example_state LAST_BUILD_ID = Some (ascii ''B1'')
   \<and> ascii ''B1'' \<noteq> [] \<and> ascii ''B1'' \<noteq> ascii ''B2''
   \<and> scripts_blob_readable example_platform example_state
   \<and> discord_resolves example_world_delivered
   \<and> fst (checkTask example_platform example_world_delivered example_env example_state) = CHANGED
   \<and> store (snd (checkTask example_platform example_world_delivered example_env example_state))
       = (store example_state)(LAST_BUILD_ID \<mapsto> ascii ''B2'',
            LAST_JS_FILES \<mapsto> JSON_stringify example_platform
              (fst (fetchJsContents example_platform example_world_delivered (TARGET_URL example_env)
                 (find_scripts example_page) example_state)))
   \<and> (\<exists>before summary.
         list_all (\<lambda>ev. \<not> is_notification ev \<and> \<not> is_store_write ev) before
         \<and> events_of_run example_state
             (snd (checkTask example_platform example_world_delivered example_env example_state))
           = before @ Discord_post (DISCORD_WEBHOOK_URL example_env) (ascii ''B1'') (ascii ''B2'') summary
               # [KV_put LAST_BUILD_ID (ascii ''B2''),
                  KV_put LAST_JS_FILES (JSON_stringify example_platform
                    (fst (fetchJsContents example_platform example_world_delivered
                       (TARGET_URL example_env) (find_scripts example_page) example_state)))])"
proof -
  have delivered: "discord_resolves example_world_delivered"
    by (simp add: example_world_delivered_def)
  from delivered example_update_run
    persistence_follows_delivered_notification
      [OF example_update_run(2-8), of example_env]
  show ?thesis by simp
qed

text \<open>
  The run in which a version change is detected and the webhook request rejects: the
  store still holds the old build identifier and the old scripts blob at the end.
\<close>

theorem rejected_notification_blocks_persistence:
  "find_buildId example_page = Some (ascii ''B2'')
   \<and> store example_state LAST_BUILD_ID = Some (ascii ''B1'')
   \<and> \<not> discord_resolves example_world
   \<and> fst (checkTask example_platform example_world example_env example_state) = FAILED
   \<and> store (snd (checkTask example_platform example_world example_env example_state)) LAST_BUILD_ID
       = Some (ascii ''B1'')
   \<and> store (snd (checkTask example_platform example_world example_env example_state)) LAST_JS_FILES
       = store example_state LAST_JS_FILES"
proof -
  have rejected: "\<not> discord_resolves example_world"
    by (simp add: example_world_def)
  from rejected example_update_run
    checkTask_update [OF example_update_run(1) example_update_run(3-8), of example_env]
  show ?thesis by simp
qed

section \<open>Properties of the fetcher\<close>

lemma map_of_Record_set:
  "map_of (Record_set fs k v) k' = (if k' = k then Some v else map_of fs k')"
  by (induction fs k v rule: Record_set.induct) auto

lemma settle_files:
  "fst (settle (fs, s) (p, r)) = (case body_of r of Some c \<Rightarrow> Record_set fs (baseName p) c | None \<Rightarrow> fs)"
  by (cases r rule: body_of.cases) simp_all

lemma settle_last:
  "map_of (fst (foldl settle acc (L @ [(p, r)]))) k =
     (if baseName p = k \<and> body_of r \<noteq> None then body_of r
      else map_of (fst (foldl settle acc L)) k)"
proof -
  obtain fs s where a: "foldl settle acc L = (fs, s)" by fastforce
  show ?thesis
    by (auto simp: a settle_files map_of_Record_set split: option.splits)
qed

lemma settle_last_hit:
  "baseName p = k \<Longrightarrow> body_of r = Some c
   \<Longrightarrow> map_of (fst (foldl settle acc (L @ [(p, r)]))) k = Some c"
  using settle_last [of acc L p r k] by simp

lemma settle_last_miss:
  "\<not> (baseName p = k \<and> body_of r \<noteq> None)
   \<Longrightarrow> map_of (fst (foldl settle acc (L @ [(p, r)]))) k = map_of (fst (foldl settle acc L)) k"
  unfolding settle_last by auto

lemma settle_lookup:
  "map_of (fst (foldl settle ([], s) L)) k = Some c
   \<Longrightarrow> \<exists>p r. (p, r) \<in> set L \<and> baseName p = k \<and> body_of r = Some c"
proof (induction L rule: rev_induct)
  case Nil
  then show ?case by simp
next
  case (snoc x L)
  obtain p r where x: "x = (p, r)" by (cases x)
  show ?case
  proof (cases "baseName p = k \<and> body_of r \<noteq> None")
    case True
    then obtain c' where c': "body_of r = Some c'" by auto
    have "map_of (fst (foldl settle ([], s) (L @ [(p, r)]))) k = Some c'"
      using True c' by (intro settle_last_hit) auto
    with snoc.prems have "c' = c" unfolding x by (simp del: foldl_append)
    then show ?thesis using True c' x by auto
  next
    case False
    have "map_of (fst (foldl settle ([], s) (L @ [(p, r)]))) k
        = map_of (fst (foldl settle ([], s) L)) k"
      using False by (rule settle_last_miss)
    with snoc.prems have "map_of (fst (foldl settle ([], s) L)) k = Some c"
      unfolding x by (simp del: foldl_append)
    then obtain p' r' where "(p', r') \<in> set L" "baseName p' = k" "body_of r' = Some c"
      using snoc.IH by blast
    then show ?thesis by auto
  qed
qed

lemma settle_present:
  "(p, r) \<in> set L \<Longrightarrow> body_of r = Some c
   \<Longrightarrow> \<exists>c'. map_of (fst (foldl settle ([], s) L)) (baseName p) = Some c'"
proof (induction L rule: rev_induct)
  case Nil
  then show ?case by simp
next
  case (snoc x L)
  obtain p' r' where x: "x = (p', r')" by (cases x)
  show ?case
  proof (cases "baseName p' = baseName p \<and> body_of r' \<noteq> None")
    case True
    then obtain c' where c': "body_of r' = Some c'" by auto
    have "map_of (fst (foldl settle ([], s) (L @ [(p', r')]))) (baseName p) = Some c'"
      using True c' by (intro settle_last_hit) auto
    then show ?thesis unfolding x by blast
  next
    case False
    have eq: "map_of (fst (foldl settle ([], s) (L @ [(p', r')]))) (baseName p)
        = map_of (fst (foldl settle ([], s) L)) (baseName p)"
      using False by (rule settle_last_miss)
    have "(p, r) \<in> set L" using snoc.prems False x by auto
    then obtain c' where "map_of (fst (foldl settle ([], s) L)) (baseName p) = Some c'"
      using snoc.IH snoc.prems(2) by blast
    with eq show ?thesis unfolding x by (simp del: foldl_append)
  qed
qed

lemma set_settled:
  "set (settled w origin paths)
     = (\<lambda>i. (paths ! i, script_response w i (origin @ paths ! i))) ` {..<length paths}"
proof -
  have "set (enumerate 0 paths) = (\<lambda>i. (i, paths ! i)) ` {..<length paths}"
    by (auto simp: in_set_enumerate_eq image_iff)
  then show ?thesis
    by (simp add: settled_def image_image)
qed

lemma settle_later_writes:
  assumes "map_of (fst (foldl settle acc B)) k = Some c"
    and "\<forall>y \<in> set A. baseName (fst y) = k \<and> body_of (snd y) \<noteq> None \<longrightarrow> body_of (snd y) = Some c"
  shows "map_of (fst (foldl settle acc (B @ A))) k = Some c"
  using assms(2)
proof (induction A rule: rev_induct)
  case Nil
  show ?case using assms(1) by simp
next
  case (snoc y A)
  obtain p r where y: "y = (p, r)" by (cases y)
  have before: "map_of (fst (foldl settle acc (B @ A))) k = Some c"
    using snoc by simp
  show ?case
  proof (cases "baseName p = k \<and> body_of r \<noteq> None")
    case True
    then have "body_of r = Some c" using snoc.prems y by simp
    then have "map_of (fst (foldl settle acc ((B @ A) @ [(p, r)]))) k = Some c"
      using True by (intro settle_last_hit) auto
    then show ?thesis unfolding y by (simp del: foldl_append)
  next
    case False
    then have "map_of (fst (foldl settle acc ((B @ A) @ [(p, r)]))) k
        = map_of (fst (foldl settle acc (B @ A))) k"
      by (rule settle_last_miss)
    with before show ?thesis unfolding y by (simp del: foldl_append)
  qed
qed

lemma settled_last_write:
  assumes i: "i < length paths"
    and body: "body_of (script_response w i (origin @ paths ! i)) = Some c"
    and earlier: "\<forall>j < length paths. j \<noteq> i \<and> baseName (paths ! j) = baseName (paths ! i)
        \<and> body_of (script_response w j (origin @ paths ! j)) \<noteq> None
        \<longrightarrow> (script_settles w j, j) < (script_settles w i, i)"
  shows "map_of (fst (foldl settle ([], s) (settled w origin paths))) (baseName (paths ! i)) = Some c"
proof -
  let ?key = "\<lambda>(i, path). (script_settles w i, i)"
  let ?h = "\<lambda>(i, path). (path, script_response w i (origin @ path))"
  let ?L = "sort_key ?key (enumerate 0 paths)"
  have "(i, paths ! i) \<in> set ?L"
    using i by (simp add: in_set_enumerate_eq)
  then have "\<exists>B A. ?L = B @ (i, paths ! i) # A"
    by (rule split_list)
  then obtain B A where L: "?L = B @ (i, paths ! i) # A"
    by blast
  have "sorted (map ?key ?L)" by (rule sorted_sort_key)
  then have after: "\<forall>y \<in> set A. ?key (i, paths ! i) \<le> ?key y"
    unfolding L by (simp add: sorted_append)
  have members: "\<forall>y \<in> set A. fst y < length paths \<and> snd y = paths ! fst y"
  proof
    fix y assume "y \<in> set A"
    then have "y \<in> set ?L" unfolding L by simp
    then show "fst y < length paths \<and> snd y = paths ! fst y"
      by (simp add: in_set_enumerate_eq)
  qed
  have later: "\<forall>y \<in> set (map ?h A). baseName (fst y) = baseName (paths ! i) \<and> body_of (snd y) \<noteq> None
      \<longrightarrow> body_of (snd y) = Some c"
  proof
    fix y assume "y \<in> set (map ?h A)"
    then obtain j q where jq: "(j, q) \<in> set A" "y = (q, script_response w j (origin @ q))"
      by auto
    from members jq(1) have j: "j < length paths" "q = paths ! j" by auto
    from after jq(1) have le: "(script_settles w i, i) \<le> (script_settles w j, j)" by auto
    show "baseName (fst y) = baseName (paths ! i) \<and> body_of (snd y) \<noteq> None
      \<longrightarrow> body_of (snd y) = Some c"
    proof (cases "j = i")
      case True
      then show ?thesis using jq(2) j body by simp
    next
      case False
      show ?thesis
      proof
        assume a: "baseName (fst y) = baseName (paths ! i) \<and> body_of (snd y) \<noteq> None"
        then have "(script_settles w j, j) < (script_settles w i, i)"
          using earlier j False jq(2) by simp
        with leD [OF le] show "body_of (snd y) = Some c" by blast
      qed
    qed
  qed
  have "map_of (fst (foldl settle ([], s) (map ?h B @ [(paths ! i, script_response w i (origin @ paths ! i))])))
      (baseName (paths ! i)) = Some c"
    using body by (intro settle_last_hit) auto
  from settle_later_writes [OF this later]
  have "map_of (fst (foldl settle ([], s)
      ((map ?h B @ [(paths ! i, script_response w i (origin @ paths ! i))]) @ map ?h A)))
      (baseName (paths ! i)) = Some c" .
  moreover have "settled w origin paths
      = (map ?h B @ [(paths ! i, script_response w i (origin @ paths ! i))]) @ map ?h A"
    unfolding settled_def L by simp
  ultimately show ?thesis by simp
qed

lemma body_of_Some: "body_of r = Some c \<longleftrightarrow> (\<exists>status. r = Response status (Some c))"
  by (cases r rule: body_of.cases) auto

lemma fetchJsContents_files:
  "fst (fetchJsContents P w url paths s)
     = fst (foldl settle ([], s) (settled w (url_origin P url) paths))"
  by (simp add: fetchJsContents_def Let_def settle_files_independent)


lemma resolved_script_present:
  assumes "i < length scriptPaths"
    and "script_response w i (url_origin P targetUrl @ scriptPaths ! i) = Response status (Some content)"
  shows "\<exists>j status' content'. j < length scriptPaths
      \<and> baseName (scriptPaths ! j) = baseName (scriptPaths ! i)
      \<and> script_response w j (url_origin P targetUrl @ scriptPaths ! j) = Response status' (Some content')
      \<and> map_of (fst (fetchJsContents P w targetUrl scriptPaths s)) (baseName (scriptPaths ! i))
          = Some content'"
proof -
  let ?L = "settled w (url_origin P targetUrl) scriptPaths"
  let ?r = "script_response w i (url_origin P targetUrl @ scriptPaths ! i)"
  have mem: "(scriptPaths ! i, ?r) \<in> set ?L"
    using assms(1) by (auto simp: set_settled)
  have body: "body_of ?r = Some content" using assms(2) by simp
  from settle_present [OF mem body, of s] obtain c' where
    c': "map_of (fst (foldl settle ([], s) ?L)) (baseName (scriptPaths ! i)) = Some c'"
    by blast
  from settle_lookup [OF c'] obtain p r where
    pr: "(p, r) \<in> set ?L" "baseName p = baseName (scriptPaths ! i)" "body_of r = Some c'"
    by blast
  from pr(1) obtain j where j: "j < length scriptPaths" "p = scriptPaths ! j"
    "r = script_response w j (url_origin P targetUrl @ scriptPaths ! j)"
    by (auto simp: set_settled)
  from pr(3) obtain status' where "r = Response status' (Some c')"
    by (auto simp: body_of_Some)
  then show ?thesis
    using j pr(2) c' by (auto simp: fetchJsContents_files)
qed

text \<open>
  C10. A status that is not a success does not keep a script out of the result: for every
  requested path whose request resolves and whose body is read, whatever the status, the
  base name of the path is a key of the result map, and its content is the body of a
  resolved request for that base name. Requests that share a base name write the same
  key, and the write of the request that settles last stays: the content is the body of
  the path itself when every other request for its base name that delivers a body
  settles before it, in particular when no other requested path has that base name. So
  a base name is missing from the result only when the request or the reading of the
  body rejects.
\<close>

theorem resolved_script_is_stored:
  assumes "i < length scriptPaths"
    and "script_response w i (url_origin P targetUrl @ scriptPaths ! i) = Response status (Some content)"
  shows "(\<exists>j status' content'. j < length scriptPaths
        \<and> baseName (scriptPaths ! j) = baseName (scriptPaths ! i)
        \<and> script_response w j (url_origin P targetUrl @ scriptPaths ! j) = Response status' (Some content')
        \<and> map_of (fst (fetchJsContents P w targetUrl scriptPaths s)) (baseName (scriptPaths ! i))
            = Some content')
    \<and> ((\<forall>j < length scriptPaths. j \<noteq> i \<and> baseName (scriptPaths ! j) = baseName (scriptPaths ! i)
           \<and> body_of (script_response w j (url_origin P targetUrl @ scriptPaths ! j)) \<noteq> None
           \<longrightarrow> (script_settles w j, j) < (script_settles w i, i))
        \<longrightarrow> map_of (fst (fetchJsContents P w targetUrl scriptPaths s)) (baseName (scriptPaths ! i))
              = Some content)"
proof -
  have body: "body_of (script_response w i (url_origin P targetUrl @ scriptPaths ! i)) = Some content"
    using assms(2) by simp
  have "map_of (fst (fetchJsContents P w targetUrl scriptPaths s)) (baseName (scriptPaths ! i))
      = Some content"
    if "\<forall>j < length scriptPaths. j \<noteq> i \<and> baseName (scriptPaths ! j) = baseName (scriptPaths ! i)
           \<and> body_of (script_response w j (url_origin P targetUrl @ scriptPaths ! j)) \<noteq> None
           \<longrightarrow> (script_settles w j, j) < (script_settles w i, i)"
    using settled_last_write [OF assms(1) body that, of s] by (simp only: fetchJsContents_files)
  with resolved_script_present [OF assms, of s] show ?thesis by blast
qed

theorem resolved_script_is_stored_witness:
  "1 < length example_twins
   \<and> script_response example_world_twins 1
       (url_origin example_platform (TARGET_URL example_env) @ example_twins ! 1)
     = Response 404 (Some (ascii ''second body''))
   \<and> baseName (example_twins ! 0) = baseName (example_twins ! 1)
   \<and> (script_settles example_world_twins 0, 0::nat) < (script_settles example_world_twins 1, 1)
   \<and> map_of (fst (fetchJsContents example_platform example_world_twins (TARGET_URL example_env)
         example_twins example_state_empty)) (baseName (example_twins ! 1))
     = Some (ascii ''second body'')"
proof -
  have two: "1 < length example_twins" by (simp add: example_twins_def)
  have resolved: "script_response example_world_twins 1
       (url_origin example_platform (TARGET_URL example_env) @ example_twins ! 1)
     = Response 404 (Some (ascii ''second body''))"
    by (simp add: example_world_twins_def)
  have same: "baseName (example_twins ! 0) = baseName (example_twins ! 1)" by code_simp
  have first: "(script_settles example_world_twins 0, 0::nat) < (script_settles example_world_twins 1, 1)"
    by (simp add: example_world_twins_def)
  have earlier: "\<forall>j < length example_twins. j \<noteq> 1 \<and> baseName (example_twins ! j) = baseName (example_twins ! 1)
      \<and> body_of (script_response example_world_twins j
            (url_origin example_platform (TARGET_URL example_env) @ example_twins ! j)) \<noteq> None
      \<longrightarrow> (script_settles example_world_twins j, j) < (script_settles example_world_twins 1, 1)"
  proof (intro allI impI)
    fix j assume "j < length example_twins"
      and "j \<noteq> 1 \<and> baseName (example_twins ! j) = baseName (example_twins ! 1)
        \<and> body_of (script_response example_world_twins j
              (url_origin example_platform (TARGET_URL example_env) @ example_twins ! j)) \<noteq> None"
    then have "j = 0" by (simp add: example_twins_def)
    with first show "(script_settles example_world_twins j, j) < (script_settles example_world_twins 1, 1)"
      by simp
  qed
  from two resolved same first earlier
    resolved_script_is_stored [OF two resolved, of example_state_empty]
  show ?thesis by blast
qed

text \<open>
  Two requested paths with one base name, both resolved: the result holds the body of the
  request that settled last, not the body of the first path.
\<close>

theorem shared_base_name_keeps_last_body:
  "script_response example_world_twins 0
       (url_origin example_platform (TARGET_URL example_env) @ example_twins ! 0)
     = Response 200 (Some (ascii ''first body''))
   \<and> map_of (fst (fetchJsContents example_platform example_world_twins (TARGET_URL example_env)
        example_twins example_state_empty)) (baseName (example_twins ! 0))
     = Some (ascii ''second body'')
   \<and> ascii ''first body'' \<noteq> ascii ''second body''"
  by code_simp

end
